theory Spec2Isabelle
  imports Complex_Main "HOL-Library.Word"
begin

section \<open>Python values\<close>

text \<open>
  The program is dynamically typed: spreadsheet cells, the scalars of the mapping
  document and the coerced payload values are all Python objects.  They are embedded in
  one datatype.  A float is an IEEE double: a finite one is given by the rational it
  denotes (every finite double is a rational; \<open>-0.0\<close> is kept apart), so that \<open>int()\<close>
  of a float is exact and float arithmetic is exact arithmetic followed by rounding
  (\<open>fl_round\<close>).  \<open>PObj\<close> stands for any cell object that is neither a number nor a
  string (a pandas Timestamp, a \<open>datetime.time\<close>, a timedelta), given by its \<open>str()\<close>.
  Text is ASCII.
\<close>

datatype pyfloat = Fin rat | NegZero | PosInf | NegInf | NaN

datatype pyval = PNone | PBool bool | PInt int | PFloat pyfloat | PStr string | PObj string

datatype pyerr = KeyError | IndexError | ValueError | TypeError | OverflowError

text \<open>
  What the program takes from its libraries and from the process it runs in:
  \<^item> \<open>float_repr\<close>: \<open>str()\<close> of a float (the shortest repr that round-trips);
  \<^item> \<open>datetime_ms\<close>: lines 40 to 44 of \<open>parse_value\<close>, the dateutil parse (day first)
    of the text, the pytz localisation in the given \<open>timezone\<close> entry and the conversion
    to epoch milliseconds; an exception of either library is the error;
  \<^item> \<open>uuid4 k\<close>: the text of the \<open>k\<close>-th identifier \<open>uuid.uuid4()\<close> draws;
  \<^item> \<open>utcnow k\<close>: the system clock at the \<open>k\<close>-th reading, in microseconds since the
    UNIX epoch;
  \<^item> \<open>local_to_seconds\<close>: the C library's reading of a calendar time without zone as
    the process's local time: it maps the seconds between 1970-01-01 00:00:00 and that
    calendar time to seconds since the epoch, a C \<open>long long\<close> (the identity where the
    local zone is UTC, \<open>\<lambda>s. s - 7200\<close> in a zone two hours east of it).
\<close>

record env =
  float_repr :: "pyfloat \<Rightarrow> string"
  datetime_ms :: "string \<Rightarrow> pyval \<Rightarrow> pyerr + int"
  uuid4 :: "nat \<Rightarrow> string"
  utcnow :: "nat \<Rightarrow> int"
  local_to_seconds :: "int \<Rightarrow> 64 word"

subsection \<open>Doubles: rounding to nearest, ties to even\<close>

function bitlen :: "int \<Rightarrow> int" where
  "bitlen n = (if n \<le> 0 then 0 else 1 + bitlen (n div 2))"
  by pat_completeness auto
termination
  by (relation "measure nat") auto

declare bitlen.simps [simp del]

function ipow2 :: "int \<Rightarrow> int" where
  "ipow2 e = (if e \<le> 0 then 1 else 2 * ipow2 (e - 1))"
  by pat_completeness auto
termination
  by (relation "measure nat") auto

declare ipow2.simps [simp del]

text \<open>\<open>ilog2 n d\<close> is the binary exponent of \<open>n / d\<close> (both positive): the \<open>e\<close> with
  \<open>2^e \<le> n / d < 2^(e + 1)\<close>.\<close>

definition ilog2 :: "int \<Rightarrow> int \<Rightarrow> int" where
  "ilog2 n d =
     (let e = bitlen n - bitlen d
      in if (if e < 0 then d \<le> n * ipow2 (- e) else d * ipow2 e \<le> n) then e else e - 1)"

text \<open>\<open>n / d / 2^p\<close> rounded to the nearest integer, a tie to the even one.\<close>

definition round_scaled :: "int \<Rightarrow> int \<Rightarrow> int \<Rightarrow> int" where
  "round_scaled n d p =
     (let num = (if p < 0 then n * ipow2 (- p) else n);
          den = (if p < 0 then d else d * ipow2 p);
          f = num div den;
          r = num mod den
      in if 2 * r < den then f else if den < 2 * r then f + 1
         else if even f then f else f + 1)"

definition scale2 :: "int \<Rightarrow> int \<Rightarrow> rat" where
  "scale2 m p = (if p < 0 then of_int m / of_int (ipow2 (- p)) else of_int (m * ipow2 p))"

text \<open>The double nearest to a rational: 53 bits of mantissa, exponents down to -1074
  (subnormals), overflow to an infinity, underflow to a signed zero.\<close>

definition fl_round :: "rat \<Rightarrow> pyfloat" where
  "fl_round q =
     (if q = 0 then Fin 0
      else let (n, d) = quotient_of \<bar>q\<bar>;
               p = max (ilog2 n d - 52) (- 1074);
               m = round_scaled n d p
           in if ipow2 1024 \<le> (if p < 0 then 0 else m * ipow2 p)
              then (if 0 < q then PosInf else NegInf)
              else if m = 0 then (if 0 < q then Fin 0 else NegZero)
              else Fin (if 0 < q then scale2 m p else - scale2 m p))"

fun fl_add :: "pyfloat \<Rightarrow> pyfloat \<Rightarrow> pyfloat" where
  "fl_add NaN y = NaN"
| "fl_add x NaN = NaN"
| "fl_add PosInf NegInf = NaN"
| "fl_add NegInf PosInf = NaN"
| "fl_add PosInf y = PosInf"
| "fl_add x PosInf = PosInf"
| "fl_add NegInf y = NegInf"
| "fl_add x NegInf = NegInf"
| "fl_add NegZero y = y"
| "fl_add x NegZero = x"
| "fl_add (Fin a) (Fin b) = fl_round (a + b)"

fun fl_negative :: "pyfloat \<Rightarrow> bool" where
  "fl_negative (Fin q) = (q < 0)"
| "fl_negative NegZero = True"
| "fl_negative NegInf = True"
| "fl_negative f = False"

fun fl_value :: "pyfloat \<Rightarrow> rat" where
  "fl_value (Fin q) = q"
| "fl_value f = 0"

definition fl_mul :: "pyfloat \<Rightarrow> pyfloat \<Rightarrow> pyfloat" where
  "fl_mul x y =
     (let inf = (\<lambda>f. f = PosInf \<or> f = NegInf);
          zero = (\<lambda>f. f = Fin 0 \<or> f = NegZero)
      in if x = NaN \<or> y = NaN then NaN
         else if inf x \<or> inf y
         then (if zero x \<or> zero y then NaN
               else if fl_negative x \<noteq> fl_negative y then NegInf else PosInf)
         else if zero x \<or> zero y
         then (if fl_negative x \<noteq> fl_negative y then NegZero else Fin 0)
         else fl_round (fl_value x * fl_value y))"

text \<open>An integer as a float: Python rounds to the nearest double and raises
  OverflowError when there is none.\<close>

definition fl_of_int :: "int \<Rightarrow> pyerr + pyfloat" where
  "fl_of_int i =
     (case fl_round (of_int i) of
        PosInf \<Rightarrow> Inl OverflowError
      | NegInf \<Rightarrow> Inl OverflowError
      | f \<Rightarrow> Inr f)"

subsection \<open>Text\<close>

definition is_space :: "char \<Rightarrow> bool" where
  "is_space c = (let n = (of_char c :: int) in (9 \<le> n \<and> n \<le> 13) \<or> n = 32)"

definition is_digit :: "char \<Rightarrow> bool" where
  "is_digit c = (let n = (of_char c :: int) in 48 \<le> n \<and> n \<le> 57)"

definition digit_val :: "char \<Rightarrow> int" where
  "digit_val c = of_char c - 48"

definition digits_val :: "string \<Rightarrow> int" where
  "digits_val ds = foldl (\<lambda>a c. 10 * a + digit_val c) 0 ds"

definition strip :: "string \<Rightarrow> string" where
  "strip s = rev (dropWhile is_space (rev (dropWhile is_space s)))"

text \<open>\<open>str.split(sep)\<close> with a one-character separator: every occurrence splits, and
  the result is never empty.\<close>

fun split_on :: "char \<Rightarrow> string \<Rightarrow> string list" where
  "split_on c [] = [[]]"
| "split_on c (x # xs) =
     (if x = c then [] # split_on c xs
      else (case split_on c xs of [] \<Rightarrow> [[x]] | p # ps \<Rightarrow> (x # p) # ps))"

fun split_sign :: "string \<Rightarrow> bool \<times> string" where
  "split_sign [] = (False, [])"
| "split_sign (c # cs) =
     (if c = CHR ''-'' then (True, cs)
      else if c = CHR ''+'' then (False, cs)
      else (False, c # cs))"

text \<open>The interpreter refuses to convert a text of more than 4300 digits to an
  integer (\<open>sys.int_info.default_max_str_digits\<close>).\<close>

definition int_max_str_digits :: nat where
  "int_max_str_digits = 4300"

text \<open>\<open>int(s)\<close> for a text: surrounding whitespace is dropped, a sign may lead, and the
  digits may be grouped by single underscores.\<close>

definition py_int_str :: "string \<Rightarrow> pyerr + int" where
  "py_int_str s =
     (let (neg, body) = split_sign (strip s);
          groups = split_on CHR ''_'' body
      in if list_all (\<lambda>g. g \<noteq> [] \<and> list_all is_digit g) groups
            \<and> length (filter is_digit body) \<le> int_max_str_digits
         then Inr (if neg then - digits_val (concat groups) else digits_val (concat groups))
         else Inl ValueError)"

text \<open>\<open>float(s)\<close> for a text.  An underscore must stand between two digits.\<close>

fun underscores_ok :: "char \<Rightarrow> string \<Rightarrow> bool" where
  "underscores_ok prev [] = (prev \<noteq> CHR ''_'')"
| "underscores_ok prev (c # cs) =
     ((if c = CHR ''_'' then is_digit prev
       else if prev = CHR ''_'' then is_digit c else True)
      \<and> underscores_ok c cs)"

definition to_lower :: "char \<Rightarrow> char" where
  "to_lower c =
     (let n = (of_char c :: int) in if 65 \<le> n \<and> n \<le> 90 then char_of (n + 32) else c)"

definition pow10 :: "int \<Rightarrow> rat" where
  "pow10 e = (if e < 0 then 1 / of_int (10 ^ nat (- e)) else of_int (10 ^ nat e))"

text \<open>The exponent part of a decimal literal: nothing, or \<open>e\<close>, a sign and digits.\<close>

definition parse_exponent :: "string \<Rightarrow> int option" where
  "parse_exponent r =
     (case r of
        [] \<Rightarrow> Some 0
      | c # r' \<Rightarrow>
          (if to_lower c = CHR ''e''
           then (let (neg, ds) = split_sign r'
                 in if ds \<noteq> [] \<and> list_all is_digit ds
                    then Some (if neg then - digits_val ds else digits_val ds)
                    else None)
           else None))"

definition parse_decimal :: "bool \<Rightarrow> string \<Rightarrow> pyerr + pyfloat" where
  "parse_decimal neg u =
     (let ds1 = takeWhile is_digit u;
          r1 = dropWhile is_digit u;
          frac = (case r1 of [] \<Rightarrow> [] | c # r \<Rightarrow> if c = CHR ''.'' then r else []);
          ds2 = (case r1 of [] \<Rightarrow> [] | c # r \<Rightarrow>
                   if c = CHR ''.'' then takeWhile is_digit frac else []);
          r2 = (case r1 of [] \<Rightarrow> [] | c # r \<Rightarrow>
                   if c = CHR ''.'' then dropWhile is_digit frac else r1)
      in if ds1 @ ds2 = [] then Inl ValueError
         else (case parse_exponent r2 of
                 None \<Rightarrow> Inl ValueError
               | Some e \<Rightarrow>
                   (let mant = digits_val (ds1 @ ds2);
                        q = of_int mant * pow10 (e - int (length ds2))
                    in if mant = 0 then Inr (if neg then NegZero else Fin 0)
                       else Inr (fl_round (if neg then - q else q)))))"

definition parse_float_body :: "string \<Rightarrow> pyerr + pyfloat" where
  "parse_float_body t =
     (let (neg, u) = split_sign t;
          w = map to_lower u
      in if w = ''inf'' \<or> w = ''infinity'' then Inr (if neg then NegInf else PosInf)
         else if w = ''nan'' then Inr NaN
         else parse_decimal neg u)"

definition py_float_str :: "string \<Rightarrow> pyerr + pyfloat" where
  "py_float_str s =
     (let t = strip s
      in if CHR ''_'' \<in> set t
         then (if underscores_ok (CHR 0x00) t
               then parse_float_body (filter (\<lambda>c. c \<noteq> CHR ''_'') t)
               else Inl ValueError)
         else parse_float_body t)"

text \<open>\<open>str(i)\<close> for an integer.  A cell of a sheet has far fewer digits than the
  interpreter's limit, so the conversion does not fail.\<close>

function str_nat :: "int \<Rightarrow> string" where
  "str_nat n =
     (if n < 10 then [char_of (48 + n)] else str_nat (n div 10) @ [char_of (48 + n mod 10)])"
  by pat_completeness auto
termination
  by (relation "measure nat") auto

declare str_nat.simps [simp del]

definition str_int :: "int \<Rightarrow> string" where
  "str_int i = (if i < 0 then CHR ''-'' # str_nat (- i) else str_nat i)"

subsection \<open>Conversions of a cell\<close>

text \<open>\<open>pd.isna\<close>: None (also what \<open>row.get\<close> gives for a column the row lacks, and how
  NaT and NA are read here) and the float NaN of an empty cell.\<close>

fun isna :: "pyval \<Rightarrow> bool" where
  "isna PNone = True"
| "isna (PFloat NaN) = True"
| "isna v = False"

fun py_str :: "env \<Rightarrow> pyval \<Rightarrow> string" where
  "py_str L PNone = ''None''"
| "py_str L (PBool b) = (if b then ''True'' else ''False'')"
| "py_str L (PInt i) = str_int i"
| "py_str L (PFloat f) = float_repr L f"
| "py_str L (PStr s) = s"
| "py_str L (PObj s) = s"

definition trunc_zero :: "rat \<Rightarrow> int" where
  "trunc_zero q = (if 0 \<le> q then \<lfloor>q\<rfloor> else \<lceil>q\<rceil>)"

fun py_int :: "pyval \<Rightarrow> pyerr + int" where
  "py_int PNone = Inl TypeError"
| "py_int (PBool b) = Inr (if b then 1 else 0)"
| "py_int (PInt i) = Inr i"
| "py_int (PFloat (Fin q)) = Inr (trunc_zero q)"
| "py_int (PFloat NegZero) = Inr 0"
| "py_int (PFloat PosInf) = Inl OverflowError"
| "py_int (PFloat NegInf) = Inl OverflowError"
| "py_int (PFloat NaN) = Inl ValueError"
| "py_int (PStr s) = py_int_str s"
| "py_int (PObj s) = Inl TypeError"

fun py_float :: "pyval \<Rightarrow> pyerr + pyfloat" where
  "py_float PNone = Inl TypeError"
| "py_float (PBool b) = Inr (Fin (if b then 1 else 0))"
| "py_float (PInt i) = fl_of_int i"
| "py_float (PFloat f) = Inr f"
| "py_float (PStr s) = py_float_str s"
| "py_float (PObj s) = Inl TypeError"

section \<open>The value coercer: \<open>parse_value\<close>\<close>

text \<open>A field's configuration is a dictionary read from YAML.\<close>

type_synonym cfg = "string \<rightharpoonup> pyval"

text \<open>\<open>cfg.get(k)\<close>: None where the key is absent.\<close>

definition cfg_get :: "cfg \<Rightarrow> string \<Rightarrow> pyval" where
  "cfg_get cfg k = (case cfg k of None \<Rightarrow> PNone | Some v \<Rightarrow> v)"

text \<open>Lines 47 to 52: the duration branch, in the order the source evaluates it.\<close>

definition parse_duration :: "string \<Rightarrow> pyerr + pyval" where
  "parse_duration s =
     (case split_on CHR '':'' s of
        [] \<Rightarrow> Inl IndexError
      | p0 # r0 \<Rightarrow>
          (case py_int_str p0 of
             Inl e \<Rightarrow> Inl e
           | Inr hours \<Rightarrow>
               (case r0 of
                  [] \<Rightarrow> Inl IndexError
                | p1 # r1 \<Rightarrow>
                    (case py_int_str p1 of
                       Inl e \<Rightarrow> Inl e
                     | Inr minutes \<Rightarrow>
                         (case r1 of
                            [] \<Rightarrow> Inl IndexError
                          | p2 # r2 \<Rightarrow>
                              (case py_float_str p2 of
                                 Inl e \<Rightarrow> Inl e
                               | Inr seconds \<Rightarrow>
                                   (case fl_of_int (hours * 3600 + minutes * 60) of
                                      Inl e \<Rightarrow> Inl e
                                    | Inr t \<Rightarrow> Inr (PFloat (fl_add t seconds)))))))))"

definition parse_value :: "env \<Rightarrow> pyval \<Rightarrow> cfg \<Rightarrow> pyerr + pyval" where
  "parse_value L raw cfg =
     (if isna raw then Inr (cfg_get cfg ''default'')
      else (case cfg ''type'' of
              None \<Rightarrow> Inl KeyError
            | Some t \<Rightarrow>
                if t = PStr ''string'' then Inr (PStr (py_str L raw))
                else if t = PStr ''int''
                then (case py_int raw of Inl e \<Rightarrow> Inl e | Inr i \<Rightarrow> Inr (PInt i))
                else if t = PStr ''float''
                then (case py_float raw of Inl e \<Rightarrow> Inl e | Inr f \<Rightarrow> Inr (PFloat f))
                else if t = PStr ''datetime''
                then (case datetime_ms L (py_str L raw)
                             (case cfg ''timezone'' of None \<Rightarrow> PStr ''UTC'' | Some z \<Rightarrow> z) of
                        Inl e \<Rightarrow> Inl e
                      | Inr ms \<Rightarrow> Inr (PInt ms))
                else if t = PStr ''duration'' then parse_duration (py_str L raw)
                else Inl ValueError))"

section \<open>Dictionaries\<close>

text \<open>
  A Python dictionary keeps its keys in insertion order, and two keys are the same when
  they are equal and hash alike: \<open>True\<close>, \<open>1\<close> and \<open>1.0\<close> are one key.  A dictionary is
  an association list, and keys are compared after \<open>key_norm\<close>.  Assigning to a key that
  is present replaces the value and keeps the key and its place.  The keys of the program
  come from the mapping document: the YAML loader gives every \<open>.nan\<close> of a document the
  same object, which a dictionary finds by identity, so NaN keys are one key.
\<close>

fun key_norm :: "pyval \<Rightarrow> pyval" where
  "key_norm (PBool b) = PInt (if b then 1 else 0)"
| "key_norm (PFloat (Fin q)) = (if of_int \<lfloor>q\<rfloor> = q then PInt \<lfloor>q\<rfloor> else PFloat (Fin q))"
| "key_norm (PFloat NegZero) = PInt 0"
| "key_norm v = v"

definition py_eq :: "pyval \<Rightarrow> pyval \<Rightarrow> bool" where
  "py_eq a b = (key_norm a = key_norm b)"

type_synonym 'v pydict = "(pyval \<times> 'v) list"

fun dict_get :: "'v pydict \<Rightarrow> pyval \<Rightarrow> 'v option" where
  "dict_get [] k = None"
| "dict_get ((k', v) # d) k = (if py_eq k' k then Some v else dict_get d k)"

fun dict_set :: "'v pydict \<Rightarrow> pyval \<Rightarrow> 'v \<Rightarrow> 'v pydict" where
  "dict_set [] k v = [(k, v)]"
| "dict_set ((k', v') # d) k v =
     (if py_eq k' k then (k', v) # d else (k', v') # dict_set d k v)"

definition dict_has :: "'v pydict \<Rightarrow> pyval \<Rightarrow> bool" where
  "dict_has d k = (dict_get d k \<noteq> None)"

section \<open>The header factory: \<open>make_header\<close>\<close>

record header =
  h_stream :: string
  h_function :: string
  message_id :: string
  protocol_version :: pyval
  sent_time :: int

text \<open>
  Line 63, \<open>int(datetime.utcnow().timestamp() * 1000)\<close>.  \<open>utcnow()\<close> is a datetime
  without zone holding the UTC calendar time of the clock reading; \<open>timestamp()\<close> of a
  datetime without zone reads its calendar time as local time (\<open>local_to_seconds\<close>) and
  adds the microseconds divided by \<open>1e6\<close>, in doubles.
\<close>

definition sent_time_now :: "env \<Rightarrow> nat \<Rightarrow> pyerr + int" where
  "sent_time_now L k =
     (let now = utcnow L k;
          secs = now div 1000000;
          us = now mod 1000000;
          ts = fl_add (fl_round (of_int (sint (local_to_seconds L secs))))
                      (fl_round (of_int us / 1000000))
      in py_int (PFloat (fl_mul ts (Fin 1000))))"

text \<open>\<open>k\<close> counts the headers made before this one: it selects the identifier drawn
  and the clock reading.\<close>

definition make_header :: "env \<Rightarrow> nat \<Rightarrow> string \<Rightarrow> pyval \<Rightarrow> pyerr + header" where
  "make_header L k stream version =
     (case split_on CHR ''.'' stream of
        [s, f] \<Rightarrow>
          (case sent_time_now L k of
             Inl e \<Rightarrow> Inl e
           | Inr t \<Rightarrow>
               Inr \<lparr> h_stream = s, h_function = f, message_id = uuid4 L k,
                     protocol_version = version, sent_time = t \<rparr>)
      | _ \<Rightarrow> Inl ValueError)"

section \<open>The transformation: \<open>transform\<close>\<close>

text \<open>The mapping document: a dictionary that may lack any of its three keys.  The
  fields are in the order of the document.\<close>

record mapping =
  m_stream :: "pyval option"
  m_version :: "pyval option"
  m_fields :: "(string \<times> cfg) list option"

type_synonym row = "string \<rightharpoonup> pyval"

text \<open>\<open>row.get(col)\<close>: None for a column the row lacks.\<close>

definition row_get :: "row \<Rightarrow> string \<Rightarrow> pyval" where
  "row_get row col = (case row col of None \<Rightarrow> PNone | Some v \<Rightarrow> v)"

text \<open>\<open>buckets[tid][tag] = val\<close>\<close>

fun bucket_assign ::
  "(pyval pydict) pydict \<Rightarrow> pyval \<Rightarrow> pyval \<Rightarrow> pyval \<Rightarrow> (pyval pydict) pydict" where
  "bucket_assign [] tid tag val = []"
| "bucket_assign ((k, p) # bs) tid tag val =
     (if py_eq k tid then (k, dict_set p tag val) # bs
      else (k, p) # bucket_assign bs tid tag val)"

text \<open>Lines 85 to 100: the fields of one row of the telemetry stream, with the buckets
  and \<open>ts_epoch\<close> as the loop's state.\<close>

fun telemetry_fields ::
  "env \<Rightarrow> row \<Rightarrow> (string \<times> cfg) list \<Rightarrow> (pyval pydict) pydict \<Rightarrow> pyval
     \<Rightarrow> pyerr + (pyval pydict) pydict" where
  "telemetry_fields L row [] buckets ts_epoch = Inr buckets"
| "telemetry_fields L row ((col, cfg) # fs) buckets ts_epoch =
     (case parse_value L (row_get row col) cfg of
        Inl e \<Rightarrow> Inl e
      | Inr val \<Rightarrow>
          (case cfg ''tag'' of
             None \<Rightarrow> Inl KeyError
           | Some tag \<Rightarrow>
               (let tid = cfg_get cfg ''turbine_id'';
                    ts_epoch' = (if tag = PStr ''timestamp'' then val else ts_epoch);
                    buckets' = (if \<not> dict_has buckets tid
                                then dict_set buckets tid
                                       [(PStr ''turbine_id'', tid), (PStr ''timestamp'', ts_epoch')]
                                else buckets)
                in telemetry_fields L row fs (bucket_assign buckets' tid tag val) ts_epoch')))"

text \<open>Lines 108 to 112: the payload of one row of the alarm stream.\<close>

fun alarm_fields ::
  "env \<Rightarrow> row \<Rightarrow> (string \<times> cfg) list \<Rightarrow> pyval pydict \<Rightarrow> pyerr + pyval pydict" where
  "alarm_fields L row [] payload = Inr payload"
| "alarm_fields L row ((col, cfg) # fs) payload =
     (case parse_value L (row_get row col) cfg of
        Inl e \<Rightarrow> Inl e
      | Inr val \<Rightarrow>
          (case cfg ''tag'' of
             None \<Rightarrow> Inl KeyError
           | Some tag \<Rightarrow> alarm_fields L row fs (dict_set payload tag val)))"

text \<open>Lines 118 to 122: the payload of one row of the power curve stream.\<close>

fun curve_fields ::
  "env \<Rightarrow> row \<Rightarrow> (string \<times> cfg) list \<Rightarrow> pyval pydict \<Rightarrow> pyerr + pyval pydict" where
  "curve_fields L row [] payload = Inr payload"
| "curve_fields L row ((col, cfg) # fs) payload =
     (case parse_value L (row_get row col) cfg of
        Inl e \<Rightarrow> Inl e
      | Inr val \<Rightarrow>
          (case cfg ''tag'' of
             None \<Rightarrow> Inl KeyError
           | Some tag \<Rightarrow> curve_fields L row fs (dict_set payload tag val)))"

record message =
  header :: header
  payload :: "pyval pydict"

text \<open>Lines 102 to 104: one message for each bucket, in the order of the buckets.\<close>

fun emit_buckets ::
  "env \<Rightarrow> pyval \<Rightarrow> (pyval pydict) pydict \<Rightarrow> message list \<times> nat
     \<Rightarrow> pyerr + message list \<times> nat" where
  "emit_buckets L version [] st = Inr st"
| "emit_buckets L version ((tid, p) # bs) st =
     (case make_header L (snd st) ''T1.F01'' version of
        Inl e \<Rightarrow> Inl e
      | Inr h \<Rightarrow>
          emit_buckets L version bs (fst st @ [\<lparr> header = h, payload = p \<rparr>], Suc (snd st)))"

text \<open>Lines 80 to 127: the body of the loop over the rows.  The state is the list of
  messages so far and the number of headers made.\<close>

definition transform_row ::
  "env \<Rightarrow> mapping \<Rightarrow> pyval \<Rightarrow> pyval \<Rightarrow> row \<Rightarrow> message list \<times> nat
     \<Rightarrow> pyerr + message list \<times> nat" where
  "transform_row L M stream version row st =
     (if stream = PStr ''T1.F01''
      then (case m_fields M of
              None \<Rightarrow> Inl KeyError
            | Some fs \<Rightarrow>
                (case telemetry_fields L row fs [] PNone of
                   Inl e \<Rightarrow> Inl e
                 | Inr buckets \<Rightarrow> emit_buckets L version buckets st))
      else if stream = PStr ''T1.F02''
      then (case m_fields M of
              None \<Rightarrow> Inl KeyError
            | Some fs \<Rightarrow>
                (case alarm_fields L row fs [] of
                   Inl e \<Rightarrow> Inl e
                 | Inr p \<Rightarrow>
                     (case make_header L (snd st) ''T1.F02'' version of
                        Inl e \<Rightarrow> Inl e
                      | Inr h \<Rightarrow> Inr (fst st @ [\<lparr> header = h, payload = p \<rparr>], Suc (snd st)))))
      else if stream = PStr ''T2.F01''
      then (case m_fields M of
              None \<Rightarrow> Inl KeyError
            | Some fs \<Rightarrow>
                (case curve_fields L row fs [] of
                   Inl e \<Rightarrow> Inl e
                 | Inr p \<Rightarrow>
                     (case make_header L (snd st) ''T2.F01'' version of
                        Inl e \<Rightarrow> Inl e
                      | Inr h \<Rightarrow> Inr (fst st @ [\<lparr> header = h, payload = p \<rparr>], Suc (snd st)))))
      else Inl ValueError)"

fun transform_rows ::
  "env \<Rightarrow> mapping \<Rightarrow> pyval \<Rightarrow> pyval \<Rightarrow> row list \<Rightarrow> message list \<times> nat
     \<Rightarrow> pyerr + message list \<times> nat" where
  "transform_rows L M stream version [] st = Inr st"
| "transform_rows L M stream version (row # rows) st =
     (case transform_row L M stream version row st of
        Inl e \<Rightarrow> Inl e
      | Inr st' \<Rightarrow> transform_rows L M stream version rows st')"

text \<open>
  \<open>transform\<close> on a mapping and the rows of the sheet (reading the two files and writing
  the output file are left out).  \<open>k\<close> is the number of headers the process has made
  before the call.
\<close>

definition transform :: "env \<Rightarrow> nat \<Rightarrow> mapping \<Rightarrow> row list \<Rightarrow> pyerr + message list" where
  "transform L k M rows =
     (case m_stream M of
        None \<Rightarrow> Inl KeyError
      | Some stream \<Rightarrow>
          (case m_version M of
             None \<Rightarrow> Inl KeyError
           | Some version \<Rightarrow>
               (case transform_rows L M stream version rows ([], k) of
                  Inl e \<Rightarrow> Inl e
                | Inr st \<Rightarrow> Inr (fst st))))"

section \<open>Notions used in the statements\<close>


text \<open>A message with other stream and function entries in its header.\<close>

definition restamp :: "string \<Rightarrow> string \<Rightarrow> message \<Rightarrow> message" where
  "restamp s f m = m \<lparr> header := (header m) \<lparr> h_stream := s, h_function := f \<rparr> \<rparr>"

text \<open>The field's group key, \<open>cfg.get('turbine_id')\<close>, and the tags of the fields
  that have a given group key.\<close>

abbreviation tid_of :: "cfg \<Rightarrow> pyval" where
  "tid_of cfg \<equiv> cfg_get cfg ''turbine_id''"

definition group_tags :: "(string \<times> cfg) list \<Rightarrow> pyval \<Rightarrow> pyval set" where
  "group_tags fs g =
     (\<Union>(col, cfg) \<in> set fs. if py_eq (tid_of cfg) g then set_option (cfg ''tag'') else {})"

text \<open>The keys of a dictionary, as they are compared.\<close>

definition dict_keys :: "'v pydict \<Rightarrow> pyval set" where
  "dict_keys d = key_norm ` fst ` set d"

section \<open>An environment for the closed examples\<close>

text \<open>
  A process whose local zone is \<open>offset\<close> seconds east of UTC, whose clock advances by a
  millisecond between readings, and whose date parser knows one text.  Its \<open>float_repr\<close>
  is right for the integral doubles below \<open>1e16\<close>.
\<close>

definition sample_env :: "int \<Rightarrow> env" where
  "sample_env offset =
     \<lparr> float_repr = (\<lambda>f. case f of
                          Fin q \<Rightarrow> str_int (trunc_zero q) @ ''.0''
                        | NegZero \<Rightarrow> ''-0.0''
                        | PosInf \<Rightarrow> ''inf''
                        | NegInf \<Rightarrow> ''-inf''
                        | NaN \<Rightarrow> ''nan''),
       datetime_ms = (\<lambda>s z. if s = ''2024-01-01 00:00:00'' \<and> z = PStr ''UTC''
                             then Inr 1704067200000 else Inl ValueError),
       uuid4 = (\<lambda>k. ''uuid-'' @ str_int (int k)),
       utcnow = (\<lambda>k. 1700000000000000 + 1000 * int k),
       local_to_seconds = (\<lambda>s. word_of_int (s - offset)) \<rparr>"

section \<open>The clock reading always converts\<close>

text \<open>The rounding of a rational below a power of two stays below it, so the doubles of
  line 63 are finite and \<open>int()\<close> of the product cannot raise.\<close>

lemma ipow2_eq: "ipow2 e = 2 ^ nat e"
proof (induction e rule: ipow2.induct)
  case (1 e)
  show ?case
  proof (cases "e \<le> 0")
    case True
    then show ?thesis by (simp add: ipow2.simps [of e])
  next
    case False
    then have "nat e = Suc (nat (e - 1))" by simp
    with False 1 show ?thesis by (simp add: ipow2.simps [of e])
  qed
qed

lemma ipow2_pos: "0 < ipow2 e"
  by (simp add: ipow2_eq)

lemma ipow2_mono: "a \<le> b \<Longrightarrow> ipow2 a \<le> ipow2 b"
  by (simp add: ipow2_eq)

lemma ipow2_add: "0 \<le> a \<Longrightarrow> 0 \<le> b \<Longrightarrow> ipow2 (a + b) = ipow2 a * ipow2 b"
  by (simp add: ipow2_eq nat_add_distrib power_add)

lemma ipow2_strict_mono: "0 \<le> a \<Longrightarrow> a < b \<Longrightarrow> ipow2 a < ipow2 b"
  by (simp add: ipow2_eq)

lemma ipow2_less_D: "ipow2 a < ipow2 b \<Longrightarrow> a < b"
  using ipow2_mono [of b a] by linarith

lemma bitlen_nonneg: "0 \<le> bitlen n"
  by (induction n rule: bitlen.induct) (simp add: bitlen.simps)

lemma bitlen_bounds: "0 < n \<Longrightarrow> ipow2 (bitlen n - 1) \<le> n \<and> n < ipow2 (bitlen n)"
proof (induction n rule: bitlen.induct)
  case (1 n)
  show ?case
  proof (cases "n = 1")
    case True
    then show ?thesis
      by (simp add: bitlen.simps [of 1] bitlen.simps [of 0] ipow2.simps [of 1] ipow2.simps [of 0])
  next
    case False
    with 1(2) have h: "0 < n div 2" by simp
    with 1 have ih: "ipow2 (bitlen (n div 2) - 1) \<le> n div 2" "n div 2 < ipow2 (bitlen (n div 2))"
      by simp_all
    have b: "bitlen n = 1 + bitlen (n div 2)"
      using 1(2) by (simp add: bitlen.simps [of n])
    have pos: "0 < bitlen (n div 2)"
      using h bitlen_nonneg [of "n div 2 div 2"] by (simp add: bitlen.simps [of "n div 2"])
    have "ipow2 (bitlen n - 1) = 2 * ipow2 (bitlen (n div 2) - 1)"
      using pos b by (simp add: ipow2.simps [of "bitlen (n div 2)"])
    moreover have "ipow2 (bitlen n) = 2 * ipow2 (bitlen (n div 2))"
      using pos b bitlen_nonneg [of "n div 2"] by (simp add: ipow2.simps [of "1 + bitlen (n div 2)"])
    ultimately show ?thesis
      using ih by linarith
  qed
qed

lemma ilog2_le:
  assumes "0 < n" "0 < d" "0 \<le> K" "n \<le> d * ipow2 K"
  shows "ilog2 n d \<le> K"
proof -
  let ?e = "bitlen n - bitlen d"
  have bn: "ipow2 (bitlen n - 1) \<le> n" and bd: "d < ipow2 (bitlen d)"
    using bitlen_bounds assms by simp_all
  have "ipow2 (bitlen n - 1) < ipow2 (bitlen d) * ipow2 K"
  proof -
    have "d * ipow2 K < ipow2 (bitlen d) * ipow2 K"
      using bd ipow2_pos [of K] by simp
    with bn assms(4) show ?thesis by linarith
  qed
  then have "ipow2 (bitlen n - 1) < ipow2 (bitlen d + K)"
    using assms(3) bitlen_nonneg [of d] by (simp add: ipow2_add)
  then have "bitlen n - 1 < bitlen d + K"
    by (rule ipow2_less_D)
  then have e1: "?e - 1 < K" by simp
  show ?thesis
  proof (cases "if ?e < 0 then d \<le> n * ipow2 (- ?e) else d * ipow2 ?e \<le> n")
    case False
    then show ?thesis using e1 by (simp add: ilog2_def Let_def)
  next
    case True
    have "?e \<le> K"
    proof (cases "?e < 0")
      case True
      then show ?thesis using assms(3) by simp
    next
      case False
      with True have "d * ipow2 ?e \<le> n" by simp
      with assms(4) have "d * ipow2 ?e \<le> d * ipow2 K" by linarith
      then have "ipow2 ?e \<le> ipow2 K" using assms(2) by simp
      then show ?thesis using assms(3) by (simp add: ipow2_eq)
    qed
    with True show ?thesis by (simp add: ilog2_def Let_def)
  qed
qed

lemma round_le:
  fixes num den N :: int
  assumes "0 < den" "num \<le> den * N"
  shows "(let f = num div den; r = num mod den
          in if 2 * r < den then f else if den < 2 * r then f + 1
             else if even f then f else f + 1) \<le> N"
proof -
  have f: "num div den \<le> N"
    using assms zdiv_mono1 [of num "den * N" den] by simp
  show ?thesis
  proof (cases "num div den = N")
    case True
    have "num = den * (num div den) + num mod den" by simp
    with True assms(2) have "num mod den \<le> 0" by (metis add_le_same_cancel1)
    moreover have "0 \<le> num mod den" using assms(1) by simp
    ultimately have "num mod den = 0" by simp
    with True assms(1) show ?thesis by (simp add: Let_def)
  next
    case False
    with f show ?thesis by (simp add: Let_def)
  qed
qed

lemma round_nonneg:
  fixes num den :: int
  assumes "0 < den" "0 \<le> num"
  shows "0 \<le> (let f = num div den; r = num mod den
          in if 2 * r < den then f else if den < 2 * r then f + 1
             else if even f then f else f + 1)"
  using assms by (simp add: Let_def pos_imp_zdiv_nonneg_iff)

lemma round_scaled_le:
  assumes "0 < n" "0 < d" "p \<le> K" "0 \<le> K" "n \<le> d * ipow2 K"
  shows "round_scaled n d p \<le> ipow2 (K - p)"
proof (cases "p < 0")
  case True
  have "ipow2 (K - p) = ipow2 K * ipow2 (- p)"
    using True assms(4) ipow2_add [of K "- p"] by simp
  then have "n * ipow2 (- p) \<le> d * ipow2 (K - p)"
    using assms(5) ipow2_pos [of "- p"] by simp
  from round_le [OF assms(2) this] True show ?thesis
    by (simp add: round_scaled_def Let_def)
next
  case False
  have "ipow2 K = ipow2 p * ipow2 (K - p)"
    using False assms(3) ipow2_add [of p "K - p"] by simp
  then have "n \<le> d * ipow2 p * ipow2 (K - p)"
    using assms(5) by (simp add: mult.assoc)
  moreover have "0 < d * ipow2 p" using assms(2) ipow2_pos by simp
  ultimately show ?thesis
    using round_le [of "d * ipow2 p" n "ipow2 (K - p)"] False
    by (simp add: round_scaled_def Let_def)
qed

lemma round_scaled_nonneg:
  assumes "0 < n" "0 < d"
  shows "0 \<le> round_scaled n d p"
proof -
  have "0 < (if p < 0 then d else d * ipow2 p)" "0 \<le> (if p < 0 then n * ipow2 (- p) else n)"
    using assms ipow2_pos [of p] ipow2_pos [of "- p"] by (simp_all add: less_imp_le)
  from round_nonneg [OF this] show ?thesis
    by (simp add: round_scaled_def Let_def)
qed

lemma fl_round_bounded:
  assumes "\<bar>q\<bar> \<le> of_int (ipow2 K)" "0 \<le> K" "K < 1024"
  shows "fl_round q \<in> insert NegZero (Fin ` {v. \<bar>v\<bar> \<le> of_int (ipow2 K)})"
proof (cases "q = 0")
  case True
  then show ?thesis using ipow2_pos [of K] by (simp add: fl_round_def less_imp_le)
next
  case False
  obtain n d where nd: "quotient_of \<bar>q\<bar> = (n, d)"
    by (cases "quotient_of \<bar>q\<bar>")
  have d: "0 < d" using nd by (rule quotient_of_denom_pos)
  have q: "\<bar>q\<bar> = of_int n / of_int d" using nd by (rule quotient_of_div)
  have n: "0 < n"
  proof -
    have "0 < \<bar>q\<bar>" using False by simp
    with q d show ?thesis by (simp add: zero_less_divide_iff)
  qed
  have nK: "n \<le> d * ipow2 K"
  proof -
    have "(of_int n :: rat) \<le> of_int (ipow2 K) * of_int d"
      using assms(1) q d by (simp add: pos_divide_le_eq)
    then have "(of_int n :: rat) \<le> of_int (d * ipow2 K)" by (simp add: mult.commute)
    then show ?thesis by (simp only: of_int_le_iff)
  qed
  define p where "p = max (ilog2 n d - 52) (- 1074)"
  define m where "m = round_scaled n d p"
  have pK: "p \<le> K"
    using ilog2_le [OF n d assms(2) nK] assms(2) by (simp add: p_def)
  have m0: "0 \<le> m" using round_scaled_nonneg [OF n d] by (simp add: m_def)
  have mK: "m \<le> ipow2 (K - p)"
    using round_scaled_le [OF n d pK assms(2) nK] by (simp add: m_def)
  have split: "ipow2 K = ipow2 (K - p) * ipow2 p" if "0 \<le> p"
    using that pK ipow2_add [of "K - p" p] by simp
  have split': "ipow2 (K - p) = ipow2 K * ipow2 (- p)" if "p < 0"
    using that assms(2) ipow2_add [of K "- p"] by simp
  have fin: "\<not> ipow2 1024 \<le> (if p < 0 then 0 else m * ipow2 p)"
  proof (cases "p < 0")
    case True
    then show ?thesis using ipow2_pos [of 1024] by simp
  next
    case False
    then have "m * ipow2 p \<le> ipow2 K"
      using mK split ipow2_pos [of p] by simp
    moreover have "ipow2 K < ipow2 1024"
      using assms(2,3) by (rule ipow2_strict_mono)
    ultimately show ?thesis using False by simp
  qed
  have val: "\<bar>scale2 m p\<bar> \<le> of_int (ipow2 K)"
  proof (cases "p < 0")
    case True
    have "(of_int m :: rat) \<le> of_int (ipow2 K * ipow2 (- p))"
      using mK split' [OF True] by (simp only: of_int_le_iff)
    then have "(of_int m :: rat) / of_int (ipow2 (- p)) \<le> of_int (ipow2 K)"
      using ipow2_pos [of "- p"] by (simp add: pos_divide_le_eq)
    moreover have "0 \<le> (of_int m :: rat) / of_int (ipow2 (- p))"
      using m0 ipow2_pos [of "- p"] by simp
    ultimately show ?thesis using True by (simp add: scale2_def)
  next
    case False
    then have "m * ipow2 p \<le> ipow2 K"
      using mK split ipow2_pos [of p] by simp
    moreover have "0 \<le> m * ipow2 p" using m0 ipow2_pos [of p] by simp
    ultimately have "\<bar>(of_int (m * ipow2 p) :: rat)\<bar> \<le> of_int (ipow2 K)"
      by (simp only: of_int_le_iff of_int_abs [symmetric] abs_of_nonneg)
    then show ?thesis using False by (simp add: scale2_def)
  qed
  have "fl_round q =
      (if ipow2 1024 \<le> (if p < 0 then 0 else m * ipow2 p)
       then (if 0 < q then PosInf else NegInf)
       else if m = 0 then (if 0 < q then Fin 0 else NegZero)
       else Fin (if 0 < q then scale2 m p else - scale2 m p))"
    unfolding fl_round_def nd Let_def p_def m_def using False by simp
  with fin val show ?thesis
    using ipow2_pos [of K] by (auto simp: less_imp_le)
qed

lemma sint64_bound: "\<bar>(of_int (sint (w :: 64 word)) :: rat)\<bar> \<le> of_int (ipow2 63)"
proof -
  have "- (2 ^ 63) \<le> sint w" "sint w < 2 ^ 63"
    using sint_range_size [of w] by (simp_all add: word_size)
  then have "\<bar>sint w\<bar> \<le> ipow2 63" by (simp add: ipow2_eq)
  then show ?thesis by (simp only: of_int_le_iff of_int_abs [symmetric])
qed

lemma sent_time_now_total: "\<exists>t. sent_time_now L k = Inr t"
proof -
  define s where "s = sint (local_to_seconds L (utcnow L k div 1000000))"
  define us where "us = utcnow L k mod 1000000"
  define A where "A = fl_round (of_int s)"
  define B where "B = fl_round (of_int us / 1000000)"
  have A: "A \<in> insert NegZero (Fin ` {v. \<bar>v\<bar> \<le> of_int (ipow2 63)})"
    unfolding A_def s_def by (rule fl_round_bounded [OF sint64_bound]) simp_all
  have "0 \<le> us" "us < 1000000" by (simp_all add: us_def)
  then have "\<bar>(of_int us :: rat) / 1000000\<bar> \<le> of_int (ipow2 0)"
    by (simp add: ipow2.simps [of 0])
  then have B: "B \<in> insert NegZero (Fin ` {v. \<bar>v\<bar> \<le> of_int (ipow2 0)})"
    unfolding B_def by (rule fl_round_bounded) simp_all
  have p63: "(of_int (ipow2 63) :: rat) + 1 \<le> of_int (ipow2 64)"
    and p0: "(of_int (ipow2 0) :: rat) = 1"
    and p64: "(of_int (ipow2 64) :: rat) * 1000 \<le> of_int (ipow2 74)"
    and p1: "(1 :: rat) \<le> of_int (ipow2 64)"
    by (simp_all add: ipow2_eq)
  have S: "fl_add A B \<in> insert NegZero (Fin ` {v. \<bar>v\<bar> \<le> of_int (ipow2 64)})"
  proof (cases A)
    case (Fin a)
    note a = this
    show ?thesis
    proof (cases B)
      case (Fin b)
      have "\<bar>a + b\<bar> \<le> of_int (ipow2 64)"
        using A B a Fin p63 p0 by auto
      then have "fl_round (a + b) \<in> insert NegZero (Fin ` {v. \<bar>v\<bar> \<le> of_int (ipow2 64)})"
        by (rule fl_round_bounded) simp_all
      then show ?thesis using a Fin by simp
    next
      case NegZero
      then show ?thesis using A a p63 by auto
    qed (use B in auto)
  next
    case NegZero
    then show ?thesis using B p1 p0 by (cases B) auto
  qed (use A in auto)
  have M: "fl_mul (fl_add A B) (Fin 1000) \<in> insert NegZero (Fin ` {v. \<bar>v\<bar> \<le> of_int (ipow2 74)})"
  proof (cases "fl_add A B")
    case (Fin v)
    show ?thesis
    proof (cases "v = 0")
      case True
      then show ?thesis using Fin ipow2_pos [of 74] by (simp add: fl_mul_def less_imp_le)
    next
      case False
      have "\<bar>v * 1000\<bar> \<le> of_int (ipow2 74)"
        using S Fin p64 by (auto simp: abs_mult)
      then have "fl_round (v * 1000) \<in> insert NegZero (Fin ` {v. \<bar>v\<bar> \<le> of_int (ipow2 74)})"
        by (rule fl_round_bounded) simp_all
      then show ?thesis using Fin False by (simp add: fl_mul_def)
    qed
  next
    case NegZero
    then show ?thesis by (simp add: fl_mul_def)
  qed (use S in auto)
  have "sent_time_now L k = py_int (PFloat (fl_mul (fl_add A B) (Fin 1000)))"
    by (simp add: sent_time_now_def Let_def A_def B_def s_def us_def)
  with M show ?thesis
    by (cases "fl_mul (fl_add A B) (Fin 1000)") auto
qed

section \<open>Integer literals\<close>




lemma split_on_nonempty: "split_on x s \<noteq> []"
  by (induction s) (auto split: list.splits)















section \<open>Properties of the value coercer\<close>

text \<open>
  C4.  For every field configuration, a blank cell (None or NaN) is coerced to the
  \<open>default\<close> entry of the configuration as it stands, whatever the \<open>type\<close> entry says,
  and to None where there is no \<open>default\<close>.
\<close>

theorem blank_gives_default:
  assumes "isna raw"
  shows "parse_value L raw cfg = Inr (case cfg ''default'' of None \<Rightarrow> PNone | Some v \<Rightarrow> v)"
  using assms by (simp add: parse_value_def cfg_get_def)

theorem blank_gives_default_witness:
  "isna (PFloat NaN)
   \<and> parse_value (sample_env 0) (PFloat NaN)
        [''type'' \<mapsto> PStr ''int'', ''tag'' \<mapsto> PStr ''alarm_code'', ''default'' \<mapsto> PStr ''N/A'']
      = Inr (PStr ''N/A'')
   \<and> isna PNone
   \<and> parse_value (sample_env 0) PNone [''type'' \<mapsto> PStr ''int'', ''tag'' \<mapsto> PStr ''alarm_code'']
      = Inr PNone"
proof -
  have a: "isna (PFloat NaN)" and b: "isna PNone"
    by simp_all
  show ?thesis
    using a b blank_gives_default [OF a, of "sample_env 0"
        "[''type'' \<mapsto> PStr ''int'', ''tag'' \<mapsto> PStr ''alarm_code'', ''default'' \<mapsto> PStr ''N/A'']"]
      blank_gives_default [OF b, of "sample_env 0"
        "[''type'' \<mapsto> PStr ''int'', ''tag'' \<mapsto> PStr ''alarm_code'']"]
    by simp
qed

text \<open>
  C5, as the code has it.  For a cell that is not blank and the type \<open>duration\<close>, the
  coercion succeeds exactly when the text of the cell has at least three parts between
  colons, the first two are integer literals, the third is a float literal and the integer
  \<open>hours * 3600 + minutes * 60\<close> has a double; the value is then the float sum of that
  integer and the seconds.  Parts after the third are not looked at.
\<close>

theorem duration_succeeds_iff:
  assumes "\<not> isna raw" and "cfg ''type'' = Some (PStr ''duration'')"
  shows "parse_value L raw cfg = Inr v \<longleftrightarrow>
     (\<exists>p0 p1 p2 rest h m sec t.
        split_on CHR '':'' (py_str L raw) = p0 # p1 # p2 # rest
        \<and> py_int_str p0 = Inr h \<and> py_int_str p1 = Inr m \<and> py_float_str p2 = Inr sec
        \<and> fl_of_int (h * 3600 + m * 60) = Inr t \<and> v = PFloat (fl_add t sec))"
  using assms
  by (auto simp: parse_value_def parse_duration_def split: list.splits sum.splits)

theorem duration_succeeds_iff_witness:
  "\<not> isna (PStr ''1:02:03.500'')
   \<and> [''type'' \<mapsto> PStr ''duration'', ''tag'' \<mapsto> PStr ''uptime''] ''type'' = Some (PStr ''duration'')
   \<and> parse_value (sample_env 0) (PStr ''1:02:03.500'')
        [''type'' \<mapsto> PStr ''duration'', ''tag'' \<mapsto> PStr ''uptime'']
      = Inr (PFloat (Fin (7447 / 2)))
   \<and> parse_value (sample_env 0) (PStr ''0:00:00'')
        [''type'' \<mapsto> PStr ''duration'', ''tag'' \<mapsto> PStr ''uptime'']
      = Inr (PFloat (Fin 0))
   \<and> isl (parse_value (sample_env 0) (PStr ''abc'')
        [''type'' \<mapsto> PStr ''duration'', ''tag'' \<mapsto> PStr ''uptime''])"
proof -
  let ?c = "[''type'' \<mapsto> PStr ''duration'', ''tag'' \<mapsto> PStr ''uptime'']"
  have c: "?c ''type'' = Some (PStr ''duration'')"
    by simp
  have s1: "split_on CHR '':'' ''1:02:03.500'' = [''1'', ''02'', ''03.500'']"
    and s2: "split_on CHR '':'' ''0:00:00'' = [''0'', ''00'', ''00'']"
    and s3: "split_on CHR '':'' ''abc'' = [''abc'']"
    by simp_all
  have p: "py_int_str ''1'' = Inr 1" "py_int_str ''02'' = Inr 2"
    "py_int_str ''0'' = Inr 0" "py_int_str ''00'' = Inr 0"
    by code_simp+
  have f: "py_float_str ''03.500'' = Inr (Fin (7 / 2))" "py_float_str ''00'' = Inr (Fin 0)"
    by code_simp+
  have i: "fl_of_int (1 * 3600 + 2 * 60) = Inr (Fin 3720)"
    "fl_of_int (0 * 3600 + 0 * 60) = Inr (Fin 0)"
    by code_simp+
  have a: "fl_add (Fin 3720) (Fin (7 / 2)) = Fin (7447 / 2)" "fl_add (Fin 0) (Fin 0) = Fin 0"
    by code_simp+
  have 1: "parse_value (sample_env 0) (PStr ''1:02:03.500'') ?c = Inr (PFloat (Fin (7447 / 2)))"
    using duration_succeeds_iff
      [of "PStr ''1:02:03.500''" ?c "sample_env 0" "PFloat (Fin (7447 / 2))"]
      c s1 p f i a by simp
  have 2: "parse_value (sample_env 0) (PStr ''0:00:00'') ?c = Inr (PFloat (Fin 0))"
    using duration_succeeds_iff [of "PStr ''0:00:00''" ?c "sample_env 0" "PFloat (Fin 0)"]
      c s2 p f i a by simp
  have "parse_value (sample_env 0) (PStr ''abc'') ?c \<noteq> Inr v" for v
    using duration_succeeds_iff [of "PStr ''abc''" ?c "sample_env 0" v] c s3 by simp
  then have 3: "isl (parse_value (sample_env 0) (PStr ''abc'') ?c)"
    by (cases "parse_value (sample_env 0) (PStr ''abc'') ?c") auto
  show ?thesis
    using 1 2 3 c by simp
qed

text \<open>The text \<open>1:02:03:04\<close> has four parts, and its coercion succeeds.\<close>

theorem duration_four_parts_counterexample:
  "length (split_on CHR '':'' ''1:02:03:04'') \<noteq> 3
   \<and> parse_value (sample_env 0) (PStr ''1:02:03:04'')
        [''type'' \<mapsto> PStr ''duration'', ''tag'' \<mapsto> PStr ''uptime'']
     = Inr (PFloat (Fin 3723))"
  by (simp add: parse_value_def) code_simp




section \<open>Properties of the header factory\<close>

lemma length_split_on: "length (split_on c s) = Suc (count_list s c)"
proof (induction s)
  case Nil
  then show ?case by simp
next
  case (Cons x xs)
  obtain p ps where "split_on c xs = p # ps"
    using split_on_nonempty [of c xs] by (cases "split_on c xs") auto
  with Cons show ?case by simp
qed

lemma split_on_one: "split_on c s = [a] \<Longrightarrow> s = a"
proof (induction s arbitrary: a)
  case Nil
  then show ?case by simp
next
  case (Cons x xs)
  obtain p ps where p: "split_on c xs = p # ps"
    using split_on_nonempty [of c xs] by (cases "split_on c xs") auto
  with Cons.prems have "x \<noteq> c" "a = x # p" "ps = []"
    by (auto split: if_splits)
  with Cons.IH [of p] p show ?case by simp
qed

lemma split_on_two: "split_on c s = [a, b] \<Longrightarrow> s = a @ c # b"
proof (induction s arbitrary: a)
  case Nil
  then show ?case by simp
next
  case (Cons x xs)
  show ?case
  proof (cases "x = c")
    case True
    with Cons.prems have "a = []" "split_on c xs = [b]" by simp_all
    with True split_on_one [of c xs b] show ?thesis by simp
  next
    case False
    with Cons.prems obtain p where "a = x # p" "split_on c xs = [p, b]"
      by (auto split: list.splits)
    with Cons.IH [of p] show ?thesis by simp
  qed
qed

text \<open>
  C8, as the code has it.  \<open>make_header\<close> fails with ValueError when the stream text
  has no dot or more than one; when it has exactly one, the header holds the text before
  the dot and the text after it, either of which may be empty, the identifier drawn, the
  version as given and the time read.
\<close>

theorem make_header_one_dot:
  "(count_list stream CHR ''.'' \<noteq> 1 \<longrightarrow> make_header L k stream version = Inl ValueError)
   \<and> (count_list stream CHR ''.'' = 1 \<longrightarrow>
        (\<exists>h. make_header L k stream version = Inr h
             \<and> h_stream h @ ''.'' @ h_function h = stream
             \<and> message_id h = uuid4 L k
             \<and> protocol_version h = version
             \<and> sent_time_now L k = Inr (sent_time h)))"
proof (intro conjI impI)
  assume "count_list stream CHR ''.'' \<noteq> 1"
  then have "length (split_on CHR ''.'' stream) \<noteq> 2"
    by (simp add: length_split_on)
  then show "make_header L k stream version = Inl ValueError"
    by (auto simp: make_header_def split: list.splits)
next
  assume "count_list stream CHR ''.'' = 1"
  then have "length (split_on CHR ''.'' stream) = 2"
    by (simp add: length_split_on)
  then obtain s f where sf: "split_on CHR ''.'' stream = [s, f]"
    by (auto simp: length_Suc_conv numeral_2_eq_2)
  obtain t where t: "sent_time_now L k = Inr t"
    using sent_time_now_total by blast
  show "\<exists>h. make_header L k stream version = Inr h
             \<and> h_stream h @ ''.'' @ h_function h = stream
             \<and> message_id h = uuid4 L k
             \<and> protocol_version h = version
             \<and> sent_time_now L k = Inr (sent_time h)"
    using split_on_two [OF sf, symmetric]
    by (intro exI [of _ "\<lparr> h_stream = s, h_function = f, message_id = uuid4 L k,
          protocol_version = version, sent_time = t \<rparr>"])
      (simp add: make_header_def sf t)
qed

theorem make_header_one_dot_witness:
  "count_list ''T1F01'' CHR ''.'' \<noteq> 1
   \<and> make_header (sample_env 0) 0 ''T1F01'' (PStr ''1.0'') = Inl ValueError
   \<and> count_list ''T1.F.01'' CHR ''.'' \<noteq> 1
   \<and> make_header (sample_env 0) 0 ''T1.F.01'' (PStr ''1.0'') = Inl ValueError
   \<and> count_list ''T1.F01'' CHR ''.'' = 1
   \<and> \<not> isl (make_header (sample_env 0) 0 ''T1.F01'' (PStr ''1.0''))"
proof -
  have c: "count_list ''T1F01'' CHR ''.'' \<noteq> 1" "count_list ''T1.F.01'' CHR ''.'' \<noteq> 1"
    "count_list ''T1.F01'' CHR ''.'' = 1"
    by simp_all
  show ?thesis
    using c make_header_one_dot [of "''T1F01''" "sample_env 0" 0 "PStr ''1.0''"]
      make_header_one_dot [of "''T1.F.01''" "sample_env 0" 0 "PStr ''1.0''"]
      make_header_one_dot [of "''T1.F01''" "sample_env 0" 0 "PStr ''1.0''"]
    by auto
qed

text \<open>The stream texts \<open>A.\<close> and \<open>.B\<close> have an empty part, and a header is made.\<close>

theorem make_header_empty_part_counterexample:
  "make_header (sample_env 0) 0 ''A.'' (PStr ''1.0'')
     = Inr \<lparr> h_stream = ''A'', h_function = '''', message_id = ''uuid-0'',
             protocol_version = PStr ''1.0'', sent_time = 1700000000000 \<rparr>
   \<and> make_header (sample_env 0) 0 ''.B'' (PStr ''1.0'')
     = Inr \<lparr> h_stream = '''', h_function = ''B'', message_id = ''uuid-0'',
             protocol_version = PStr ''1.0'', sent_time = 1700000000000 \<rparr>"
  by code_simp

text \<open>
  C9.  In a process whose local zone is two hours east of UTC, a header made when the
  clock reads 1700000000000 ms after the epoch gets the \<open>sent_time\<close> 1699992800000, two
  hours less; in a process whose local zone is UTC it gets the clock reading.
\<close>

theorem sent_time_local_zone:
  "utcnow (sample_env 7200) 0 = 1700000000000 * 1000
   \<and> make_header (sample_env 7200) 0 ''T1.F02'' (PStr ''1.0'')
     = Inr \<lparr> h_stream = ''T1'', h_function = ''F02'', message_id = ''uuid-0'',
             protocol_version = PStr ''1.0'', sent_time = 1699992800000 \<rparr>
   \<and> make_header (sample_env 0) 0 ''T1.F02'' (PStr ''1.0'')
     = Inr \<lparr> h_stream = ''T1'', h_function = ''F02'', message_id = ''uuid-0'',
             protocol_version = PStr ''1.0'', sent_time = 1700000000000 \<rparr>"
  by code_simp

section \<open>Properties of the transformation\<close>

lemma transform_rows_unsupported:
  assumes "s \<noteq> PStr ''T1.F01''" "s \<noteq> PStr ''T1.F02''" "s \<noteq> PStr ''T2.F01''"
  shows "transform_rows L M s v rows st = (if rows = [] then Inr st else Inl ValueError)"
  using assms by (cases rows) (simp_all add: transform_row_def)

text \<open>
  C6, as the code has it.  For a mapping whose stream is none of the three supported
  ones, \<open>transform\<close> fails with ValueError when there is at least one row, whatever the
  fields and the rows hold, and returns the empty list of messages when there is no row.
\<close>

theorem unsupported_stream:
  assumes "m_stream M = Some s" "m_version M = Some v"
    and "s \<noteq> PStr ''T1.F01''" "s \<noteq> PStr ''T1.F02''" "s \<noteq> PStr ''T2.F01''"
  shows "transform L k M rows = (if rows = [] then Inr [] else Inl ValueError)"
  using assms by (simp add: transform_def transform_rows_unsupported)

text \<open>An unsupported stream and no row: \<open>transform\<close> returns and does not fail.\<close>

theorem unsupported_stream_empty_counterexample:
  "transform (sample_env 0) 0
     \<lparr> m_stream = Some (PStr ''T9.F99''), m_version = Some (PStr ''1.0''),
       m_fields = Some [(''Code'', [''type'' \<mapsto> PStr ''int'', ''tag'' \<mapsto> PStr ''alarm_code''])] \<rparr>
     [] = Inr []"
  by code_simp

theorem unsupported_stream_witness:
  "transform (sample_env 0) 0
     \<lparr> m_stream = Some (PStr ''T9.F99''), m_version = Some (PStr ''1.0''),
       m_fields = Some [(''Code'', [''type'' \<mapsto> PStr ''int'', ''tag'' \<mapsto> PStr ''alarm_code''])] \<rparr>
     [[''Code'' \<mapsto> PInt 42]] = Inl ValueError"
  using unsupported_stream [of
      "\<lparr> m_stream = Some (PStr ''T9.F99''), m_version = Some (PStr ''1.0''),
         m_fields = Some [(''Code'', [''type'' \<mapsto> PStr ''int'', ''tag'' \<mapsto> PStr ''alarm_code''])] \<rparr>"
      "PStr ''T9.F99''" "PStr ''1.0''" "sample_env 0" 0 "[[''Code'' \<mapsto> PInt 42]]"]
  by simp

lemma curve_fields_alarm_fields: "curve_fields L row fs pl = alarm_fields L row fs pl"
  by (induction fs arbitrary: pl) (auto split: sum.splits option.splits)

lemma make_header_T2_F01:
  "make_header L k ''T2.F01'' v =
     map_sum id (\<lambda>h. h \<lparr> h_stream := ''T2'', h_function := ''F01'' \<rparr>) (make_header L k ''T1.F02'' v)"
  by (simp add: make_header_def split: sum.splits)

lemma transform_row_restamp:
  assumes "m_fields M2 = m_fields M1"
  shows "transform_row L M2 (PStr ''T2.F01'') v row (map (restamp ''T2'' ''F01'') ms, k) =
     map_sum id (\<lambda>st. (map (restamp ''T2'' ''F01'') (fst st), snd st))
       (transform_row L M1 (PStr ''T1.F02'') v row (ms, k))"
  using assms
  by (auto simp: transform_row_def curve_fields_alarm_fields make_header_T2_F01 restamp_def
      split: option.splits sum.splits)

lemma transform_rows_restamp:
  assumes "m_fields M2 = m_fields M1"
  shows "transform_rows L M2 (PStr ''T2.F01'') v rows (map (restamp ''T2'' ''F01'') ms, k) =
     map_sum id (\<lambda>st. (map (restamp ''T2'' ''F01'') (fst st), snd st))
       (transform_rows L M1 (PStr ''T1.F02'') v rows (ms, k))"
proof (induction rows arbitrary: ms k)
  case Nil
  then show ?case by simp
next
  case (Cons row rows)
  show ?case
  proof (cases "transform_row L M1 (PStr ''T1.F02'') v row (ms, k)")
    case (Inl e)
    then show ?thesis
      using transform_row_restamp [OF assms, of L v row ms k] by simp
  next
    case (Inr st)
    obtain ms' k' where st: "st = (ms', k')" by (cases st)
    show ?thesis
      using transform_row_restamp [OF assms, of L v row ms k] Inr st Cons.IH [of ms' k']
      by simp
  qed
qed

text \<open>
  C10.  The loop of the power curve branch computes the payload that the loop of the
  alarm branch computes, and transforming with the stream \<open>T2.F01\<close> gives what
  transforming with \<open>T1.F02\<close> gives, failures included, once the stream and function
  entries of the headers are replaced.
\<close>

theorem flat_streams_agree:
  "curve_fields L row fs [] = alarm_fields L row fs []
   \<and> transform L k (M \<lparr> m_stream := Some (PStr ''T2.F01'') \<rparr>) rows =
       map_sum id (map (restamp ''T2'' ''F01''))
         (transform L k (M \<lparr> m_stream := Some (PStr ''T1.F02'') \<rparr>) rows)"
proof -
  have "m_fields (M \<lparr> m_stream := Some (PStr ''T2.F01'') \<rparr>)
      = m_fields (M \<lparr> m_stream := Some (PStr ''T1.F02'') \<rparr>)"
    by simp
  from transform_rows_restamp [OF this, of L _ rows "[]" k]
  show ?thesis
    by (auto simp: transform_def curve_fields_alarm_fields split: option.splits sum.splits)
qed

lemma alarm_fields_succeeds:
  assumes "\<forall>(col, cfg) \<in> set fs. \<not> isl (parse_value L (row_get row col) cfg) \<and> cfg ''tag'' \<noteq> None"
  shows "\<exists>p. alarm_fields L row fs pl = Inr p"
  using assms
proof (induction fs arbitrary: pl)
  case Nil
  then show ?case by simp
next
  case (Cons f fs)
  obtain col cfg where f: "f = (col, cfg)" by (cases f)
  from Cons.prems f obtain val tag where
    "parse_value L (row_get row col) cfg = Inr val" "cfg ''tag'' = Some tag"
    by (cases "parse_value L (row_get row col) cfg") auto
  moreover have "\<exists>p. alarm_fields L row fs (dict_set pl tag val) = Inr p"
    using Cons.prems by (intro Cons.IH) simp
  ultimately show ?case by (simp add: f)
qed

lemma make_header_supported:
  "\<exists>h. make_header L k ''T1.F02'' v = Inr h \<and> message_id h = uuid4 L k"
  "\<exists>h. make_header L k ''T2.F01'' v = Inr h \<and> message_id h = uuid4 L k"
  "\<exists>h. make_header L k ''T1.F01'' v = Inr h \<and> message_id h = uuid4 L k"
  using sent_time_now_total [of L k] by (auto simp: make_header_def)

lemma flat_rows:
  assumes "stream = PStr ''T1.F02'' \<or> stream = PStr ''T2.F01''"
    and "m_fields M = Some fs"
    and "\<forall>row \<in> set rows. \<exists>p. alarm_fields L row fs [] = Inr p"
  shows "\<exists>new. transform_rows L M stream v rows (ms, k) = Inr (ms @ new, k + length rows)
           \<and> length new = length rows
           \<and> (\<forall>i < length rows.
                 alarm_fields L (rows ! i) fs [] = Inr (payload (new ! i))
                 \<and> message_id (header (new ! i)) = uuid4 L (k + i))"
  using assms(3)
proof (induction rows arbitrary: ms k)
  case Nil
  then show ?case by simp
next
  case (Cons row rows)
  from Cons.prems obtain p where p: "alarm_fields L row fs [] = Inr p" by auto
  obtain h where h: "make_header L k (if stream = PStr ''T1.F02'' then ''T1.F02'' else ''T2.F01'') v = Inr h"
    "message_id h = uuid4 L k"
    using make_header_supported(1,2) [of L k v] by (cases "stream = PStr ''T1.F02''") auto
  let ?m = "\<lparr> header = h, payload = p \<rparr>"
  have row: "transform_row L M stream v row (ms, k) = Inr (ms @ [?m], Suc k)"
    using assms(1,2) p h
    by (auto simp: transform_row_def curve_fields_alarm_fields)
  from Cons.prems have "\<forall>row \<in> set rows. \<exists>p. alarm_fields L row fs [] = Inr p" by simp
  from Cons.IH [OF this, of "ms @ [?m]" "Suc k"] obtain new where new:
    "transform_rows L M stream v rows (ms @ [?m], Suc k) = Inr ((ms @ [?m]) @ new, Suc k + length rows)"
    "length new = length rows"
    "\<forall>i < length rows. alarm_fields L (rows ! i) fs [] = Inr (payload (new ! i))
         \<and> message_id (header (new ! i)) = uuid4 L (Suc k + i)"
    by blast
  have "\<forall>i < length (row # rows).
          alarm_fields L ((row # rows) ! i) fs [] = Inr (payload ((?m # new) ! i))
          \<and> message_id (header ((?m # new) ! i)) = uuid4 L (k + i)"
  proof (intro allI impI)
    fix i assume "i < length (row # rows)"
    then show "alarm_fields L ((row # rows) ! i) fs [] = Inr (payload ((?m # new) ! i))
          \<and> message_id (header ((?m # new) ! i)) = uuid4 L (k + i)"
      using p h(2) new(3) by (cases i) auto
  qed
  then show ?case
    using row new(1,2) by (intro exI [of _ "?m # new"]) simp
qed

text \<open>
  C3.  For the streams \<open>T1.F02\<close> and \<open>T2.F01\<close>, a mapping with a version and fields
  that all have a tag, and rows on which no coercion fails, \<open>transform\<close> returns one
  message for each row, in the order of the rows: the i-th message holds the payload of
  the i-th row and the i-th identifier drawn.
\<close>

theorem flat_one_message_per_row:
  assumes "m_stream M = Some (PStr ''T1.F02'') \<or> m_stream M = Some (PStr ''T2.F01'')"
    and "m_version M = Some v" and "m_fields M = Some fs"
    and "\<forall>row \<in> set rows. \<forall>(col, cfg) \<in> set fs.
           \<not> isl (parse_value L (row_get row col) cfg) \<and> cfg ''tag'' \<noteq> None"
  shows "\<exists>msgs. transform L k M rows = Inr msgs
           \<and> length msgs = length rows
           \<and> (\<forall>i < length rows.
                 alarm_fields L (rows ! i) fs [] = Inr (payload (msgs ! i))
                 \<and> message_id (header (msgs ! i)) = uuid4 L (k + i))"
proof -
  obtain stream where s: "m_stream M = Some stream"
    "stream = PStr ''T1.F02'' \<or> stream = PStr ''T2.F01''"
    using assms(1) by auto
  have "\<forall>row \<in> set rows. \<exists>p. alarm_fields L row fs [] = Inr p"
    using assms(4) alarm_fields_succeeds by blast
  from flat_rows [where ms = "[]" and k = k and v = v, OF s(2) assms(3) this]
  show ?thesis
    using s(1) assms(2) by (auto simp: transform_def)
qed

theorem flat_one_message_per_row_witness:
  "(m_stream \<lparr> m_stream = Some (PStr ''T1.F02''), m_version = Some (PStr ''1.0''),
        m_fields = Some [(''Code'', [''type'' \<mapsto> PStr ''int'', ''tag'' \<mapsto> PStr ''alarm_code'']),
                         (''Desc'', [''type'' \<mapsto> PStr ''string'', ''tag'' \<mapsto> PStr ''description'',
                                     ''default'' \<mapsto> PStr ''''])] \<rparr> = Some (PStr ''T1.F02''))
   \<and> map payload (projr (transform (sample_env 0) 0
        \<lparr> m_stream = Some (PStr ''T1.F02''), m_version = Some (PStr ''1.0''),
          m_fields = Some [(''Code'', [''type'' \<mapsto> PStr ''int'', ''tag'' \<mapsto> PStr ''alarm_code'']),
                           (''Desc'', [''type'' \<mapsto> PStr ''string'', ''tag'' \<mapsto> PStr ''description'',
                                       ''default'' \<mapsto> PStr ''''])] \<rparr>
        [[''Code'' \<mapsto> PInt 42, ''Desc'' \<mapsto> PFloat NaN],
         [''Code'' \<mapsto> PInt 7, ''Desc'' \<mapsto> PStr ''high wind'']]))
     = [[(PStr ''alarm_code'', PInt 42), (PStr ''description'', PStr '''')],
        [(PStr ''alarm_code'', PInt 7), (PStr ''description'', PStr ''high wind'')]]"
proof -
  let ?fs = "[(''Code'', [''type'' \<mapsto> PStr ''int'', ''tag'' \<mapsto> PStr ''alarm_code'']),
              (''Desc'', [''type'' \<mapsto> PStr ''string'', ''tag'' \<mapsto> PStr ''description'',
                          ''default'' \<mapsto> PStr ''''])]"
  let ?M = "\<lparr> m_stream = Some (PStr ''T1.F02''), m_version = Some (PStr ''1.0''),
              m_fields = Some ?fs \<rparr>"
  let ?r0 = "[''Code'' \<mapsto> PInt 42, ''Desc'' \<mapsto> PFloat NaN]"
  let ?r1 = "[''Code'' \<mapsto> PInt 7, ''Desc'' \<mapsto> PStr ''high wind'']"
  have hyp: "\<forall>row \<in> set [?r0, ?r1]. \<forall>(col, cfg) \<in> set ?fs.
       \<not> isl (parse_value (sample_env 0) (row_get row col) cfg) \<and> cfg ''tag'' \<noteq> None"
    by (simp add: parse_value_def row_get_def cfg_get_def)
  have p0: "alarm_fields (sample_env 0) ?r0 ?fs []
      = Inr [(PStr ''alarm_code'', PInt 42), (PStr ''description'', PStr '''')]"
    and p1: "alarm_fields (sample_env 0) ?r1 ?fs []
      = Inr [(PStr ''alarm_code'', PInt 7), (PStr ''description'', PStr ''high wind'')]"
    by (simp_all add: parse_value_def row_get_def cfg_get_def py_eq_def)
  from flat_one_message_per_row [of ?M "PStr ''1.0''" ?fs "[?r0, ?r1]" "sample_env 0" 0] hyp
  obtain msgs where msgs: "transform (sample_env 0) 0 ?M [?r0, ?r1] = Inr msgs"
    "length msgs = 2"
    "\<forall>i < 2. alarm_fields (sample_env 0) ([?r0, ?r1] ! i) ?fs [] = Inr (payload (msgs ! i))"
    by auto
  from msgs(2) obtain a b where ab: "msgs = [a, b]"
    by (auto simp: length_Suc_conv numeral_2_eq_2)
  from msgs(3) [rule_format, of 0] msgs(3) [rule_format, of 1] p0 p1 ab
  have "map payload msgs = [[(PStr ''alarm_code'', PInt 42), (PStr ''description'', PStr '''')],
        [(PStr ''alarm_code'', PInt 7), (PStr ''description'', PStr ''high wind'')]]"
    by simp
  with msgs(1) hyp show ?thesis by simp
qed

section \<open>Properties of the grouped stream\<close>

lemma py_eq_refl [simp]: "py_eq a a"
  by (simp add: py_eq_def)

lemma key_norm_PStr: "key_norm t = PStr s \<longleftrightarrow> t = PStr s"
proof (cases t)
  case (PFloat f)
  then show ?thesis by (cases f) auto
qed auto

lemma py_eq_PStr [simp]: "py_eq t (PStr s) \<longleftrightarrow> t = PStr s" "py_eq (PStr s) t \<longleftrightarrow> t = PStr s"
  using key_norm_PStr [of t s] by (auto simp: py_eq_def)

lemma dict_get_set:
  "dict_get (dict_set d k v) k' = (if py_eq k k' then Some v else dict_get d k')"
  by (induction d) (auto simp: py_eq_def)

lemma dict_keys_simps [simp]:
  "dict_keys [] = {}" "dict_keys ((k, v) # d) = insert (key_norm k) (dict_keys d)"
  by (simp_all add: dict_keys_def)

lemma dict_has_iff: "dict_has d k \<longleftrightarrow> key_norm k \<in> dict_keys d"
  by (induction d) (auto simp: dict_has_def py_eq_def)

lemma dict_keys_set: "dict_keys (dict_set d k v) = insert (key_norm k) (dict_keys d)"
  by (induction d) (auto simp: py_eq_def split: if_splits)

lemma keys_dict_set:
  "map (\<lambda>x. key_norm (fst x)) (dict_set d k v) =
     (if dict_has d k then map (\<lambda>x. key_norm (fst x)) d else map (\<lambda>x. key_norm (fst x)) d @ [key_norm k])"
  by (induction d) (auto simp: dict_has_def split: if_splits)

lemma keys_bucket_assign:
  "map (\<lambda>x. key_norm (fst x)) (bucket_assign b tid tag val) = map (\<lambda>x. key_norm (fst x)) b"
  by (induction b) auto

lemma dict_keys_list: "dict_keys d = set (map (\<lambda>x. key_norm (fst x)) d)"
  by (auto simp: dict_keys_def)

lemma dict_keys_bucket_assign: "dict_keys (bucket_assign b tid tag val) = dict_keys b"
  by (simp only: dict_keys_list keys_bucket_assign)

lemma dict_get_bucket_assign:
  "dict_get (bucket_assign b tid tag val) g =
     (if py_eq tid g then map_option (\<lambda>p. dict_set p tag val) (dict_get b g) else dict_get b g)"
  by (induction b) (auto simp: py_eq_def)

lemma in_bucket_assign:
  "(k, p) \<in> set (bucket_assign b tid tag val) \<Longrightarrow>
     \<exists>p0. (k, p0) \<in> set b \<and> (p = p0 \<or> p = dict_set p0 tag val)"
proof (induction b)
  case Nil
  then show ?case by simp
next
  case (Cons x b)
  obtain k0 p0 where x: "x = (k0, p0)" by (cases x)
  show ?case
  proof (cases "py_eq k0 tid")
    case True
    with Cons.prems x show ?thesis by auto
  next
    case False
    with Cons.prems x have "(k, p) = (k0, p0) \<or> (k, p) \<in> set (bucket_assign b tid tag val)"
      by simp
    then show ?thesis
    proof
      assume "(k, p) = (k0, p0)"
      then show ?thesis using x by auto
    next
      assume "(k, p) \<in> set (bucket_assign b tid tag val)"
      from Cons.IH [OF this] show ?thesis by auto
    qed
  qed
qed

lemma in_dict_set: "(k, p) \<in> set (dict_set d k0 v) \<Longrightarrow> (k, p) \<in> set d \<or> p = v"
  by (induction d) (auto split: if_splits)

text \<open>One pass of the loop body, as a function of the state.\<close>

lemma telemetry_fields_Cons:
  assumes "parse_value L (row_get row col) cfg = Inr val" "cfg ''tag'' = Some tag"
  shows "telemetry_fields L row ((col, cfg) # fs) b ts =
     telemetry_fields L row fs
       (bucket_assign
          (if \<not> dict_has b (tid_of cfg)
           then dict_set b (tid_of cfg)
                  [(PStr ''turbine_id'', tid_of cfg),
                   (PStr ''timestamp'', if tag = PStr ''timestamp'' then val else ts)]
           else b)
          (tid_of cfg) tag val)
       (if tag = PStr ''timestamp'' then val else ts)"
  using assms by (simp add: Let_def)

lemma telemetry_fields_Cons_Inr:
  assumes "telemetry_fields L row ((col, cfg) # fs) b ts = Inr b'"
  shows "\<exists>val tag. parse_value L (row_get row col) cfg = Inr val \<and> cfg ''tag'' = Some tag"
  using assms
  by (cases "parse_value L (row_get row col) cfg"; cases "cfg ''tag''") auto

lemma telemetry_succeeds:
  assumes "\<forall>(col, cfg) \<in> set fs. \<not> isl (parse_value L (row_get row col) cfg) \<and> cfg ''tag'' \<noteq> None"
  shows "\<exists>b'. telemetry_fields L row fs b ts = Inr b'"
  using assms
proof (induction fs arbitrary: b ts)
  case Nil
  then show ?case by simp
next
  case (Cons f fs)
  obtain col cfg where f: "f = (col, cfg)" by (cases f)
  from Cons.prems f obtain val tag where vt:
    "parse_value L (row_get row col) cfg = Inr val" "cfg ''tag'' = Some tag"
    by (cases "parse_value L (row_get row col) cfg") auto
  have "\<forall>(col, cfg) \<in> set fs. \<not> isl (parse_value L (row_get row col) cfg) \<and> cfg ''tag'' \<noteq> None"
    using Cons.prems by simp
  from Cons.IH [OF this] show ?case
    unfolding f telemetry_fields_Cons [OF vt] by blast
qed

lemma telemetry_keys:
  assumes "telemetry_fields L row fs b ts = Inr b'" "distinct (map (\<lambda>x. key_norm (fst x)) b)"
  shows "distinct (map (\<lambda>x. key_norm (fst x)) b')
    \<and> dict_keys b' = dict_keys b \<union> key_norm ` tid_of ` snd ` set fs"
  using assms
proof (induction fs arbitrary: b ts)
  case Nil
  then show ?case by simp
next
  case (Cons f fs)
  obtain col cfg where f: "f = (col, cfg)" by (cases f)
  from Cons.prems(1) f obtain val tag where vt:
    "parse_value L (row_get row col) cfg = Inr val" "cfg ''tag'' = Some tag"
    using telemetry_fields_Cons_Inr by blast
  let ?tid = "tid_of cfg"
  let ?ts = "if tag = PStr ''timestamp'' then val else ts"
  let ?b1 = "if \<not> dict_has b ?tid
             then dict_set b ?tid [(PStr ''turbine_id'', ?tid), (PStr ''timestamp'', ?ts)] else b"
  let ?b2 = "bucket_assign ?b1 ?tid tag val"
  have run: "telemetry_fields L row fs ?b2 ?ts = Inr b'"
    using Cons.prems(1) unfolding f telemetry_fields_Cons [OF vt] .
  have k2: "map (\<lambda>x. key_norm (fst x)) ?b2 = map (\<lambda>x. key_norm (fst x)) ?b1"
    by (rule keys_bucket_assign)
  have d1: "distinct (map (\<lambda>x. key_norm (fst x)) ?b1)"
    using Cons.prems(2) by (auto simp: keys_dict_set dict_has_iff dict_keys_list)
  have s1: "dict_keys ?b1 = insert (key_norm ?tid) (dict_keys b)"
    by (auto simp: dict_keys_set dict_has_iff)
  have s2: "dict_keys ?b2 = dict_keys ?b1"
    by (rule dict_keys_bucket_assign)
  from Cons.IH [OF run] d1 k2 have
    "distinct (map (\<lambda>x. key_norm (fst x)) b')"
    "dict_keys b' = dict_keys ?b2 \<union> key_norm ` tid_of ` snd ` set fs"
    by simp_all
  then show ?case
    unfolding s2 s1 f by auto
qed

lemma dict_get_cong: "py_eq a b \<Longrightarrow> dict_get d a = dict_get d b"
  by (induction d) (auto simp: py_eq_def)

lemma dict_get_None_iff: "dict_get d k = None \<longleftrightarrow> \<not> dict_has d k"
  by (simp add: dict_has_def)

lemma group_tags_simps [simp]:
  "group_tags [] g = {}"
  "group_tags ((col, cfg) # fs) g =
     (if py_eq (tid_of cfg) g then set_option (cfg ''tag'') else {}) \<union> group_tags fs g"
  by (simp_all add: group_tags_def)

lemma telemetry_payload_keys:
  assumes "telemetry_fields L row fs b ts = Inr b'" "dict_get b' g = Some p'"
  shows "dict_keys p' =
     (case dict_get b g of Some p \<Rightarrow> dict_keys p
      | None \<Rightarrow> {PStr ''turbine_id'', PStr ''timestamp''}) \<union> key_norm ` group_tags fs g"
  using assms
proof (induction fs arbitrary: b ts)
  case Nil
  then show ?case by simp
next
  case (Cons f fs)
  obtain col cfg where f: "f = (col, cfg)" by (cases f)
  from Cons.prems(1) f obtain val tag where vt:
    "parse_value L (row_get row col) cfg = Inr val" "cfg ''tag'' = Some tag"
    using telemetry_fields_Cons_Inr by blast
  let ?tid = "tid_of cfg"
  let ?ts = "if tag = PStr ''timestamp'' then val else ts"
  let ?seed = "[(PStr ''turbine_id'', ?tid), (PStr ''timestamp'', ?ts)]"
  let ?b1 = "if \<not> dict_has b ?tid then dict_set b ?tid ?seed else b"
  let ?b2 = "bucket_assign ?b1 ?tid tag val"
  have run: "telemetry_fields L row fs ?b2 ?ts = Inr b'"
    using Cons.prems(1) unfolding f telemetry_fields_Cons [OF vt] .
  note ih = Cons.IH [OF run Cons.prems(2)]
  show ?case
  proof (cases "py_eq ?tid g")
    case False
    then have "dict_get ?b2 g = dict_get b g"
      by (simp add: dict_get_bucket_assign dict_get_set)
    with ih False show ?thesis by (simp add: f)
  next
    case True
    note g = dict_get_cong [OF True]
    show ?thesis
    proof (cases "dict_get b g")
      case None
      then have "\<not> dict_has b ?tid" by (simp add: dict_has_def g)
      then have "dict_get ?b2 g = Some (dict_set ?seed tag val)"
        using True by (simp add: dict_get_bucket_assign dict_get_set)
      with ih None True vt(2) show ?thesis
        by (auto simp add: f dict_keys_set simp del: dict_set.simps)
    next
      case (Some p)
      then have "dict_has b ?tid" by (simp add: dict_has_def g)
      then have "dict_get ?b2 g = Some (dict_set p tag val)"
        using True Some by (simp add: dict_get_bucket_assign)
      with ih Some True vt(2) show ?thesis
        by (auto simp add: f dict_keys_set)
    qed
  qed
qed

lemma telemetry_timestamp_invariant:
  assumes "telemetry_fields L row fs b ts = Inr b'"
    and "\<forall>(col, cfg) \<in> set fs. cfg ''tag'' \<noteq> Some (PStr ''timestamp'')"
    and "\<forall>(k, p) \<in> set b. dict_get p (PStr ''timestamp'') = Some ts"
  shows "\<forall>(k, p) \<in> set b'. dict_get p (PStr ''timestamp'') = Some ts"
  using assms
proof (induction fs arbitrary: b)
  case Nil
  then show ?case by simp
next
  case (Cons f fs)
  obtain col cfg where f: "f = (col, cfg)" by (cases f)
  from Cons.prems(1) f obtain val tag where vt:
    "parse_value L (row_get row col) cfg = Inr val" "cfg ''tag'' = Some tag"
    using telemetry_fields_Cons_Inr by blast
  have tag: "tag \<noteq> PStr ''timestamp''"
    using Cons.prems(2) vt(2) f by auto
  let ?tid = "tid_of cfg"
  let ?seed = "[(PStr ''turbine_id'', ?tid), (PStr ''timestamp'', ts)]"
  let ?b1 = "if \<not> dict_has b ?tid then dict_set b ?tid ?seed else b"
  let ?b2 = "bucket_assign ?b1 ?tid tag val"
  have run: "telemetry_fields L row fs ?b2 ts = Inr b'"
    using Cons.prems(1) unfolding f telemetry_fields_Cons [OF vt]
    by (simp only: tag if_False)
  have 1: "\<forall>(k, p) \<in> set ?b1. dict_get p (PStr ''timestamp'') = Some ts"
    using Cons.prems(3) by (auto dest!: in_dict_set)
  have 2: "\<forall>(k, p) \<in> set ?b2. dict_get p (PStr ''timestamp'') = Some ts"
  proof (clarify)
    fix k p assume "(k, p) \<in> set ?b2"
    then obtain p0 where "(k, p0) \<in> set ?b1" "p = p0 \<or> p = dict_set p0 tag val"
      using in_bucket_assign by blast
    with 1 tag show "dict_get p (PStr ''timestamp'') = Some ts"
      by (auto simp: dict_get_set)
  qed
  from Cons.prems(2) have "\<forall>(col, cfg) \<in> set fs. cfg ''tag'' \<noteq> Some (PStr ''timestamp'')"
    by simp
  from Cons.IH [OF run this 2] show ?case .
qed




lemma emit_buckets_payloads:
  "\<exists>new. emit_buckets L v b (ms, k) = Inr (ms @ new, k + length b) \<and> map payload new = map snd b"
proof (induction b arbitrary: ms k)
  case Nil
  then show ?case by simp
next
  case (Cons x b)
  obtain tid p where x: "x = (tid, p)" by (cases x)
  obtain h where h: "make_header L k ''T1.F01'' v = Inr h"
    using make_header_supported(3) by blast
  from Cons [of "ms @ [\<lparr> header = h, payload = p \<rparr>]" "Suc k"] obtain new where
    "emit_buckets L v b (ms @ [\<lparr> header = h, payload = p \<rparr>], Suc k)
       = Inr ((ms @ [\<lparr> header = h, payload = p \<rparr>]) @ new, Suc k + length b)"
    "map payload new = map snd b"
    by blast
  then show ?case
    by (intro exI [of _ "\<lparr> header = h, payload = p \<rparr> # new"]) (simp add: x h)
qed

lemma transform_telemetry_row:
  assumes "m_stream M = Some (PStr ''T1.F01'')" "m_version M = Some v" "m_fields M = Some fs"
    and "telemetry_fields L row fs [] PNone = Inr b"
  shows "\<exists>msgs. transform L k M [row] = Inr msgs \<and> map payload msgs = map snd b"
proof -
  obtain new where "emit_buckets L v b ([], k) = Inr ([] @ new, k + length b)"
    "map payload new = map snd b"
    using emit_buckets_payloads by blast
  then show ?thesis
    using assms by (simp add: transform_def transform_row_def)
qed

lemma dict_set_absent: "\<not> dict_has d k \<Longrightarrow> dict_set d k v = d @ [(k, v)]"
  by (induction d) (auto simp: dict_has_def split: if_splits)

lemma telemetry_turbine_id_invariant:
  assumes "telemetry_fields L row fs b ts = Inr b'"
    and "\<forall>(col, cfg) \<in> set fs. cfg ''tag'' \<noteq> Some (PStr ''turbine_id'')"
    and "\<forall>(k, p) \<in> set b. dict_get p (PStr ''turbine_id'') = Some k"
  shows "\<forall>(k, p) \<in> set b'. dict_get p (PStr ''turbine_id'') = Some k"
  using assms
proof (induction fs arbitrary: b ts)
  case Nil
  then show ?case by simp
next
  case (Cons f fs)
  obtain col cfg where f: "f = (col, cfg)" by (cases f)
  from Cons.prems(1) f obtain val tag where vt:
    "parse_value L (row_get row col) cfg = Inr val" "cfg ''tag'' = Some tag"
    using telemetry_fields_Cons_Inr by blast
  have tag: "tag \<noteq> PStr ''turbine_id''"
    using Cons.prems(2) vt(2) f by auto
  let ?tid = "tid_of cfg"
  let ?ts = "if tag = PStr ''timestamp'' then val else ts"
  let ?seed = "[(PStr ''turbine_id'', ?tid), (PStr ''timestamp'', ?ts)]"
  let ?b1 = "if \<not> dict_has b ?tid then dict_set b ?tid ?seed else b"
  let ?b2 = "bucket_assign ?b1 ?tid tag val"
  have run: "telemetry_fields L row fs ?b2 ?ts = Inr b'"
    using Cons.prems(1) unfolding f telemetry_fields_Cons [OF vt] .
  have 1: "\<forall>(k, p) \<in> set ?b1. dict_get p (PStr ''turbine_id'') = Some k"
    using Cons.prems(3) by (auto simp: dict_set_absent)
  have 2: "\<forall>(k, p) \<in> set ?b2. dict_get p (PStr ''turbine_id'') = Some k"
  proof (clarify)
    fix k p assume "(k, p) \<in> set ?b2"
    then obtain p0 where "(k, p0) \<in> set ?b1" "p = p0 \<or> p = dict_set p0 tag val"
      using in_bucket_assign by blast
    with 1 tag show "dict_get p (PStr ''turbine_id'') = Some k"
      by (auto simp: dict_get_set)
  qed
  from Cons.prems(2) have "\<forall>(col, cfg) \<in> set fs. cfg ''tag'' \<noteq> Some (PStr ''turbine_id'')"
    by simp
  from Cons.IH [OF run this 2] show ?case .
qed

text \<open>
  Where every field has one of two group keys.  For the stream \<open>T1.F01\<close> and one row:
  when the first field is the only one tagged \<open>timestamp\<close>, no field is tagged
  \<open>turbine_id\<close>, no coercion fails, and the group keys of the fields, the timestamp
  field's own included, are exactly two different keys \<open>A\<close> and \<open>B\<close>, then \<open>transform\<close>
  returns exactly two messages, one for each key: each payload holds its group key under
  \<open>turbine_id\<close> and the coerced timestamp under \<open>timestamp\<close>, and its keys are these two
  and the tags of the fields of its own group.
\<close>

lemma two_group_keys_two_messages:
  assumes "m_stream M = Some (PStr ''T1.F01'')" and "m_version M = Some v"
    and "m_fields M = Some ((c0, cfg0) # rest)"
    and "cfg0 ''tag'' = Some (PStr ''timestamp'')"
    and "parse_value L (row_get row c0) cfg0 = Inr ts"
    and "\<forall>(col, cfg) \<in> set rest.
           \<not> isl (parse_value L (row_get row col) cfg)
           \<and> cfg ''tag'' \<noteq> None \<and> cfg ''tag'' \<noteq> Some (PStr ''timestamp'')
           \<and> cfg ''tag'' \<noteq> Some (PStr ''turbine_id'')"
    and "\<not> py_eq A B"
    and "key_norm ` tid_of ` snd ` set ((c0, cfg0) # rest) = {key_norm A, key_norm B}"
  shows "\<exists>m1 m2 g1 g2.
           transform L k M [row] = Inr [m1, m2]
           \<and> (py_eq g1 A \<and> py_eq g2 B \<or> py_eq g1 B \<and> py_eq g2 A)
           \<and> dict_get (payload m1) (PStr ''turbine_id'') = Some g1
           \<and> dict_get (payload m2) (PStr ''turbine_id'') = Some g2
           \<and> dict_get (payload m1) (PStr ''timestamp'') = Some ts
           \<and> dict_get (payload m2) (PStr ''timestamp'') = Some ts
           \<and> dict_keys (payload m1) =
               {PStr ''turbine_id'', PStr ''timestamp''}
                 \<union> key_norm ` group_tags ((c0, cfg0) # rest) g1
           \<and> dict_keys (payload m2) =
               {PStr ''turbine_id'', PStr ''timestamp''}
                 \<union> key_norm ` group_tags ((c0, cfg0) # rest) g2"
proof -
  let ?fs = "(c0, cfg0) # rest"
  have ok: "\<forall>(col, cfg) \<in> set ?fs.
      \<not> isl (parse_value L (row_get row col) cfg) \<and> cfg ''tag'' \<noteq> None"
    using assms(4,5,6) by auto
  from telemetry_succeeds [OF ok] obtain b where
    run: "telemetry_fields L row ?fs [] PNone = Inr b"
    by blast
  from telemetry_keys [OF run] assms(8) have
    dist: "distinct (map (\<lambda>x. key_norm (fst x)) b)"
    and keys: "dict_keys b = {key_norm A, key_norm B}"
    by simp_all
  have AB: "key_norm A \<noteq> key_norm B"
    using assms(7) by (simp add: py_eq_def)
  have "length (map (\<lambda>x. key_norm (fst x)) b) = card (dict_keys b)"
    using distinct_card [OF dist] by (simp only: dict_keys_list)
  then have "length b = 2"
    using keys AB by simp
  then obtain k1 p1 k2 p2 where b: "b = [(k1, p1), (k2, p2)]"
    by (auto simp: length_Suc_conv numeral_2_eq_2)
  have k12: "key_norm k1 \<noteq> key_norm k2"
    using dist b by simp
  have groups: "py_eq k1 A \<and> py_eq k2 B \<or> py_eq k1 B \<and> py_eq k2 A"
    using keys b by (auto simp: py_eq_def doubleton_eq_iff)
  have g1: "dict_get b k1 = Some p1" and g2: "dict_get b k2 = Some p2"
    using k12 by (simp_all add: b py_eq_def)
  have keys1: "dict_keys p1 =
      {PStr ''turbine_id'', PStr ''timestamp''} \<union> key_norm ` group_tags ?fs k1"
    using telemetry_payload_keys [OF run g1] by simp
  have keys2: "dict_keys p2 =
      {PStr ''turbine_id'', PStr ''timestamp''} \<union> key_norm ` group_tags ?fs k2"
    using telemetry_payload_keys [OF run g2] by simp
  let ?seed = "[(PStr ''turbine_id'', tid_of cfg0), (PStr ''timestamp'', ts)]"
  have first: "telemetry_fields L row rest [(tid_of cfg0, ?seed)] ts = Inr b"
    using run unfolding telemetry_fields_Cons [OF assms(5,4)]
    by (simp add: dict_has_def)
  have "\<forall>(k, p) \<in> set b. dict_get p (PStr ''timestamp'') = Some ts"
    using assms(6) by (intro telemetry_timestamp_invariant [OF first]) auto
  then have ts1: "dict_get p1 (PStr ''timestamp'') = Some ts"
    and ts2: "dict_get p2 (PStr ''timestamp'') = Some ts"
    by (simp_all add: b)
  have "\<forall>(k, p) \<in> set b. dict_get p (PStr ''turbine_id'') = Some k"
    using assms(6) by (intro telemetry_turbine_id_invariant [OF first]) auto
  then have id1: "dict_get p1 (PStr ''turbine_id'') = Some k1"
    and id2: "dict_get p2 (PStr ''turbine_id'') = Some k2"
    by (simp_all add: b)
  from transform_telemetry_row [OF assms(1,2,3) run, of k] obtain msgs where
    msgs: "transform L k M [row] = Inr msgs" "map payload msgs = [p1, p2]"
    by (auto simp: b)
  from msgs(2) obtain m1 m2 where m: "msgs = [m1, m2]" "payload m1 = p1" "payload m2 = p2"
    by (auto simp: map_eq_Cons_conv)
  show ?thesis
    by (intro exI [of _ m1] exI [of _ m2] exI [of _ k1] exI [of _ k2])
      (simp only: msgs(1) m groups id1 id2 ts1 ts2 keys1 keys2 simp_thms)
qed

lemma two_group_keys_two_messages_example:
  "parse_value (sample_env 0)
      (row_get [''Time'' \<mapsto> PObj ''2024-01-01 00:00:00'', ''P1'' \<mapsto> PFloat (Fin (3 / 2)),
                ''P2'' \<mapsto> PFloat (Fin 2)] ''Time'')
      [''type'' \<mapsto> PStr ''datetime'', ''tag'' \<mapsto> PStr ''timestamp'',
       ''turbine_id'' \<mapsto> PStr ''WTG01'']
     = Inr (PInt 1704067200000)
   \<and> \<not> py_eq (PStr ''WTG01'') (PStr ''WTG02'')
   \<and> key_norm ` tid_of ` snd ` set
        [(''Time'', [''type'' \<mapsto> PStr ''datetime'', ''tag'' \<mapsto> PStr ''timestamp'',
                     ''turbine_id'' \<mapsto> PStr ''WTG01'']),
         (''P1'', [''type'' \<mapsto> PStr ''float'', ''tag'' \<mapsto> PStr ''power'',
                   ''turbine_id'' \<mapsto> PStr ''WTG01'']),
         (''P2'', [''type'' \<mapsto> PStr ''float'', ''tag'' \<mapsto> PStr ''power'',
                   ''turbine_id'' \<mapsto> PStr ''WTG02''])]
       = {key_norm (PStr ''WTG01''), key_norm (PStr ''WTG02'')}
   \<and> \<not> isl (transform (sample_env 0) 0
        \<lparr> m_stream = Some (PStr ''T1.F01''), m_version = Some (PStr ''1.0''),
          m_fields = Some
            [(''Time'', [''type'' \<mapsto> PStr ''datetime'', ''tag'' \<mapsto> PStr ''timestamp'',
                         ''turbine_id'' \<mapsto> PStr ''WTG01'']),
             (''P1'', [''type'' \<mapsto> PStr ''float'', ''tag'' \<mapsto> PStr ''power'',
                       ''turbine_id'' \<mapsto> PStr ''WTG01'']),
             (''P2'', [''type'' \<mapsto> PStr ''float'', ''tag'' \<mapsto> PStr ''power'',
                       ''turbine_id'' \<mapsto> PStr ''WTG02''])] \<rparr>
        [[''Time'' \<mapsto> PObj ''2024-01-01 00:00:00'', ''P1'' \<mapsto> PFloat (Fin (3 / 2)),
          ''P2'' \<mapsto> PFloat (Fin 2)]])
   \<and> length (projr (transform (sample_env 0) 0
        \<lparr> m_stream = Some (PStr ''T1.F01''), m_version = Some (PStr ''1.0''),
          m_fields = Some
            [(''Time'', [''type'' \<mapsto> PStr ''datetime'', ''tag'' \<mapsto> PStr ''timestamp'',
                         ''turbine_id'' \<mapsto> PStr ''WTG01'']),
             (''P1'', [''type'' \<mapsto> PStr ''float'', ''tag'' \<mapsto> PStr ''power'',
                       ''turbine_id'' \<mapsto> PStr ''WTG01'']),
             (''P2'', [''type'' \<mapsto> PStr ''float'', ''tag'' \<mapsto> PStr ''power'',
                       ''turbine_id'' \<mapsto> PStr ''WTG02''])] \<rparr>
        [[''Time'' \<mapsto> PObj ''2024-01-01 00:00:00'', ''P1'' \<mapsto> PFloat (Fin (3 / 2)),
          ''P2'' \<mapsto> PFloat (Fin 2)]])) = 2"
proof -
  let ?c0 = "[''type'' \<mapsto> PStr ''datetime'', ''tag'' \<mapsto> PStr ''timestamp'',
              ''turbine_id'' \<mapsto> PStr ''WTG01'']"
  let ?rest = "[(''P1'', [''type'' \<mapsto> PStr ''float'', ''tag'' \<mapsto> PStr ''power'',
                          ''turbine_id'' \<mapsto> PStr ''WTG01'']),
                (''P2'', [''type'' \<mapsto> PStr ''float'', ''tag'' \<mapsto> PStr ''power'',
                          ''turbine_id'' \<mapsto> PStr ''WTG02''])]"
  let ?M = "\<lparr> m_stream = Some (PStr ''T1.F01''), m_version = Some (PStr ''1.0''),
              m_fields = Some ((''Time'', ?c0) # ?rest) \<rparr>"
  let ?row = "[''Time'' \<mapsto> PObj ''2024-01-01 00:00:00'', ''P1'' \<mapsto> PFloat (Fin (3 / 2)),
               ''P2'' \<mapsto> PFloat (Fin 2)]"
  have h1: "m_stream ?M = Some (PStr ''T1.F01'')" "m_version ?M = Some (PStr ''1.0'')"
    "m_fields ?M = Some ((''Time'', ?c0) # ?rest)" "?c0 ''tag'' = Some (PStr ''timestamp'')"
    by simp_all
  have h2: "parse_value (sample_env 0) (row_get ?row ''Time'') ?c0 = Inr (PInt 1704067200000)"
    by (simp add: parse_value_def row_get_def sample_env_def)
  have h3: "\<forall>(col, cfg) \<in> set ?rest.
      \<not> isl (parse_value (sample_env 0) (row_get ?row col) cfg)
      \<and> cfg ''tag'' \<noteq> None \<and> cfg ''tag'' \<noteq> Some (PStr ''timestamp'')
      \<and> cfg ''tag'' \<noteq> Some (PStr ''turbine_id'')"
    by (simp add: parse_value_def row_get_def)
  have h4: "\<not> py_eq (PStr ''WTG01'') (PStr ''WTG02'')"
    by simp
  have h5: "key_norm ` tid_of ` snd ` set ((''Time'', ?c0) # ?rest)
      = {key_norm (PStr ''WTG01''), key_norm (PStr ''WTG02'')}"
    by (simp add: cfg_get_def)
  from two_group_keys_two_messages [OF h1 h2 h3 h4 h5, of 0]
  obtain m1 m2 where "transform (sample_env 0) 0 ?M [?row] = Inr [m1, m2]"
    by blast
  with h2 h4 h5 show ?thesis by simp
qed

text \<open>
  C1.  A row with readings for the groups \<open>WTG01\<close> and \<open>WTG02\<close> and a timestamp field
  that is declared before both and has no \<open>turbine_id\<close>: \<open>transform\<close> returns three
  messages, not two.  The first is for the key None and holds nothing but
  \<open>turbine_id\<close> None and the timestamp; the other two are the messages of the two
  groups, each with the timestamp and its own field.
\<close>

theorem shared_timestamp_three_messages:
  "map payload (projr (transform (sample_env 0) 0
      \<lparr> m_stream = Some (PStr ''T1.F01''), m_version = Some (PStr ''1.0''),
        m_fields = Some
          [(''Time'', [''type'' \<mapsto> PStr ''datetime'', ''tag'' \<mapsto> PStr ''timestamp'']),
           (''P1'', [''type'' \<mapsto> PStr ''float'', ''tag'' \<mapsto> PStr ''power'',
                     ''turbine_id'' \<mapsto> PStr ''WTG01'']),
           (''P2'', [''type'' \<mapsto> PStr ''float'', ''tag'' \<mapsto> PStr ''power'',
                     ''turbine_id'' \<mapsto> PStr ''WTG02''])] \<rparr>
      [[''Time'' \<mapsto> PObj ''2024-01-01 00:00:00'', ''P1'' \<mapsto> PFloat (Fin (3 / 2)),
        ''P2'' \<mapsto> PFloat (Fin 2)]]))
     = [[(PStr ''turbine_id'', PNone), (PStr ''timestamp'', PInt 1704067200000)],
        [(PStr ''turbine_id'', PStr ''WTG01''), (PStr ''timestamp'', PInt 1704067200000),
         (PStr ''power'', PFloat (Fin (3 / 2)))],
        [(PStr ''turbine_id'', PStr ''WTG02''), (PStr ''timestamp'', PInt 1704067200000),
         (PStr ''power'', PFloat (Fin 2))]]
   \<and> \<not> isl (transform (sample_env 0) 0
      \<lparr> m_stream = Some (PStr ''T1.F01''), m_version = Some (PStr ''1.0''),
        m_fields = Some
          [(''Time'', [''type'' \<mapsto> PStr ''datetime'', ''tag'' \<mapsto> PStr ''timestamp'']),
           (''P1'', [''type'' \<mapsto> PStr ''float'', ''tag'' \<mapsto> PStr ''power'',
                     ''turbine_id'' \<mapsto> PStr ''WTG01'']),
           (''P2'', [''type'' \<mapsto> PStr ''float'', ''tag'' \<mapsto> PStr ''power'',
                     ''turbine_id'' \<mapsto> PStr ''WTG02''])] \<rparr>
      [[''Time'' \<mapsto> PObj ''2024-01-01 00:00:00'', ''P1'' \<mapsto> PFloat (Fin (3 / 2)),
        ''P2'' \<mapsto> PFloat (Fin 2)]])"
  by code_simp




end
